theory Spec2Isabelle
  imports Complex_Main "HOL-Library.Word"
begin

unbundle bit_operations_syntax

section \<open>Strings, bytes and the serial link\<close>

text \<open>
  A Python \<open>str\<close> is a sequence of Unicode code points, a \<open>bytes\<close> object a sequence of
  octets. Time stamps (\<open>time.time()\<close>, Python floats) are idealised as exact reals.
\<close>

type_synonym pystr = "nat list"
type_synonym byte = "8 word"

definition s :: "string \<Rightarrow> pystr" where
  "s lit = map of_char lit"

datatype error = IndexError | ValueError | TypeError

text \<open>
  The decoding table of Python's \<open>ISO-8859-16\<close> codec (\<open>encodings/iso8859_16.py\<close>): the
  bytes 0x00 to 0xA0 decode to the code point of the same number, the bytes 0xA1 to 0xFF
  to the code points listed here.
\<close>

definition iso8859_16_upper :: "nat list" where
  "iso8859_16_upper =
    [260, 261, 321, 8364, 8222, 352, 167, 353, 169, 536, 171, 377, 173, 378, 379,
     176, 177, 268, 322, 381, 8221, 182, 183, 382, 269, 537, 187, 338, 339, 376, 380,
     192, 193, 194, 258, 196, 262, 198, 199, 200, 201, 202, 203, 204, 205, 206, 207,
     272, 323, 210, 211, 212, 336, 214, 346, 368, 217, 218, 219, 220, 280, 538, 223,
     224, 225, 226, 259, 228, 263, 230, 231, 232, 233, 234, 235, 236, 237, 238, 239,
     273, 324, 242, 243, 244, 337, 246, 347, 369, 249, 250, 251, 252, 281, 539, 255]"

definition decode_byte :: "byte \<Rightarrow> nat" where
  "decode_byte b = (if unat b \<le> 160 then unat b else iso8859_16_upper ! (unat b - 161))"

text \<open>\<open>bytes.decode('ISO-8859-16')\<close>: one code point per byte, never an error.\<close>

definition decode :: "byte list \<Rightarrow> pystr" where
  "decode bs = map decode_byte bs"

text \<open>\<open>str.replace(c, '')\<close> for a one-character \<open>c\<close>.\<close>

definition remove_char :: "nat \<Rightarrow> pystr \<Rightarrow> pystr" where
  "remove_char c str = filter (\<lambda>x. x \<noteq> c) str"

text \<open>
  \<open>str.split(sep, 1)\<close> for a one-character separator: \<open>None\<close> stands for the one-element
  result (no separator present), \<open>Some (a, b)\<close> for the two-element result \<open>[a, b]\<close>.
\<close>

fun split1 :: "nat \<Rightarrow> pystr \<Rightarrow> (pystr \<times> pystr) option" where
  "split1 sep [] = None"
| "split1 sep (c # cs) =
     (if c = sep then Some ([], cs)
      else (case split1 sep cs of None \<Rightarrow> None | Some (a, b) \<Rightarrow> Some (c # a, b)))"

text \<open>Slices \<open>xs[i:j]\<close> and \<open>xs[i:]\<close> with non-negative bounds, \<open>str.startswith\<close>, \<open>sep.join\<close>.\<close>

definition py_slice :: "'a list \<Rightarrow> nat \<Rightarrow> nat \<Rightarrow> 'a list" where
  "py_slice xs i j = drop i (take j xs)"

definition startswith :: "pystr \<Rightarrow> pystr \<Rightarrow> bool" where
  "startswith str p = (take (length p) str = p)"

fun join :: "pystr \<Rightarrow> pystr list \<Rightarrow> pystr" where
  "join sep [] = []"
| "join sep [x] = x"
| "join sep (x # y # ys) = x @ sep @ join sep (y # ys)"

text \<open>\<open>str(n)\<close> for an integer \<open>n\<close>.\<close>

fun digits :: "nat \<Rightarrow> pystr" where
  "digits n = (if n < 10 then [48 + n] else digits (n div 10) @ [48 + n mod 10])"

declare digits.simps [simp del]

definition str_int :: "int \<Rightarrow> pystr" where
  "str_int n = (if n < 0 then 45 # digits (nat (- n)) else digits (nat n))"

subsection \<open>Protocol constants\<close>

text \<open>
  The module \<open>inkkeys/protocol.py\<close> (the enumerations \<open>KeyCode\<close>, \<open>CommandCode\<close> and
  \<open>RefreshTypeCode\<close>) is not part of the sources at hand; the values the device module
  reads from it are parameters of the model.
\<close>

record protocol =
  KeyCode_JOG :: pystr
  CommandCode_LED :: pystr
  CommandCode_ANIMATE :: pystr
  CommandCode_INFO :: pystr
  CommandCode_DISPLAY :: pystr
  CommandCode_REFRESH :: pystr
  RefreshTypeCode_FULL :: pystr
  RefreshTypeCode_PARTIAL :: pystr
  RefreshTypeCode_OFF :: pystr
  RefreshTypeCode_RESET :: pystr

subsection \<open>The device object\<close>

text \<open>
  A PIL image as far as the device module observes it: its \<open>size\<close> and the bytes that
  \<open>image.convert("1").rotate(180).tobytes()\<close> yields. \<open>image.copy()\<close> is the same value.
\<close>

record image =
  size :: "int \<times> int"
  rotated_bytes :: "byte list"

record part =
  part_x :: int
  part_y :: int
  part_image :: image

text \<open>
  One call of \<open>ser.write\<close>: either the UTF-8 encoding of a string (\<open>str.encode()\<close>, an
  injective function of the string) or raw bytes.
\<close>

datatype written = Encoded pystr | Raw "byte list"

text \<open>
  The fields of \<open>Device\<close> that the modelled methods touch, and the world around it:
  \<open>rx\<close> lists what the serial port has waiting at each successive call of
  \<open>read_from_device\<close> (an empty chunk, or an exhausted list, is \<open>in_waiting = 0\<close>),
  \<open>tx\<close> logs the calls of \<open>ser.write\<close>, and \<open>clock\<close> is what \<open>time.time()\<close> returns;
  only \<open>time.sleep\<close> advances it. \<open>naps\<close> lists how much time each successive call of
  \<open>time.sleep\<close> really takes, as \<open>time.time()\<close> shows it afterwards (never less than
  nothing); once the list is exhausted, a call takes exactly the time asked for. Handlers
  are values of an arbitrary type \<open>'h\<close>.
  The lock \<open>awaiting_response_lock\<close> has no effect in this single-threaded model, and
  serial write errors are not modelled.
\<close>

record 'h device =
  rx :: "byte list list"
  tx :: "written list"
  clock :: real
  naps :: "real list"
  testmode :: bool
  inbuffer :: pystr
  num_of_leds :: int
  display_width :: int
  display_height :: int
  rotation_circle_steps :: int
  image_buffer :: "part list"
  callbacks :: "pystr \<rightharpoonup> 'h"
  led_state :: "int list option"
  led_set_time :: "real option"

definition CHUNK_SIZE :: nat where
  "CHUNK_SIZE = 100"

definition ser_write :: "written \<Rightarrow> 'h device \<Rightarrow> 'h device" where
  "ser_write w d = d\<lparr>tx := tx d @ [w]\<rparr>"

definition sleep :: "real \<Rightarrow> 'h device \<Rightarrow> 'h device" where
  "sleep secs d =
     (case naps d of
        [] \<Rightarrow> d\<lparr>clock := clock d + secs\<rparr>
      | nap # later \<Rightarrow> d\<lparr>clock := clock d + max 0 nap, naps := later\<rparr>)"

definition send_to_device :: "pystr \<Rightarrow> 'h device \<Rightarrow> 'h device" where
  "send_to_device command d = ser_write (Encoded (command @ s ''\<newline>'')) d"

function send_chunks :: "byte list \<Rightarrow> nat \<Rightarrow> nat \<Rightarrow> 'h device \<Rightarrow> 'h device" where
  "send_chunks data startIx endIx d =
     (if startIx < length data
      then send_chunks data (startIx + CHUNK_SIZE) (endIx + CHUNK_SIZE)
             (ser_write (Raw (py_slice data startIx endIx)) d)
      else d)"
  by pat_completeness auto
termination
  by (relation "measure (\<lambda>(data, startIx, endIx, d). length data - startIx)")
     (auto simp: CHUNK_SIZE_def)

declare send_chunks.simps [simp del]

definition send_binary_to_device :: "byte list \<Rightarrow> 'h device \<Rightarrow> 'h device" where
  "send_binary_to_device data d = send_chunks data 0 CHUNK_SIZE d"

definition read_from_device :: "'h device \<Rightarrow> pystr option \<times> 'h device" where
  "read_from_device d =
     (let waiting = (case rx d of [] \<Rightarrow> [] | c # cs \<Rightarrow> c);
          d1 = d\<lparr>rx := tl (rx d)\<rparr>;
          d2 = (if length waiting > 0
                then d1\<lparr>inbuffer := inbuffer d1 @ remove_char 13 (decode waiting)\<rparr>
                else d1)
      in case split1 10 (inbuffer d2) of
           Some (cmd, rest) \<Rightarrow> (Some cmd, d2\<lparr>inbuffer := rest\<rparr>)
         | None \<Rightarrow> (None, d2))"

section \<open>Pending input and termination of the waiting loops\<close>

text \<open>
  Everything the device will still hand over: the line buffer followed by the decoded
  chunks the port has not delivered yet.
\<close>

definition pending :: "'h device \<Rightarrow> pystr" where
  "pending d = inbuffer d @ concat (map (\<lambda>c. remove_char 13 (decode c)) (rx d))"

lemma split1_None: "split1 sep xs = None \<longleftrightarrow> sep \<notin> set xs"
  by (induction xs) (auto split: option.splits)

lemma split1_Some: "split1 sep xs = Some (a, b) \<Longrightarrow> xs = a @ sep # b \<and> sep \<notin> set a"
  by (induction xs arbitrary: a) (auto split: option.splits if_splits)

lemma split1_append: "sep \<notin> set a \<Longrightarrow> split1 sep (a @ sep # b) = Some (a, b)"
  by (induction a) auto

lemma read_None:
  assumes "read_from_device d = (None, d')"
  shows "pending d' = pending d \<and> length (rx d') \<le> length (rx d) \<and> clock d' = clock d
         \<and> naps d' = naps d"
  using assms
  by (cases "rx d")
     (auto simp: read_from_device_def Let_def pending_def remove_char_def decode_def
           split: option.splits if_splits)

lemma read_Some:
  assumes "read_from_device d = (Some l, d')"
  shows "pending d = l @ 10 # pending d' \<and> 10 \<notin> set l
         \<and> length (rx d') \<le> length (rx d) \<and> clock d' = clock d \<and> naps d' = naps d"
  using assms
  by (cases "rx d")
     (auto simp: read_from_device_def Let_def pending_def remove_char_def decode_def
           split: option.splits if_splits dest!: split1_Some)

text \<open>
  The measure of the waiting loops: the tenths of a second left until the deadline, the
  naps of a length of their own still to come, the newlines still to come, the chunks
  still to be delivered, and whether a line is at hand.
\<close>

definition wait_measure :: "real \<Rightarrow> real \<Rightarrow> pystr option \<Rightarrow> 'h device \<Rightarrow> nat" where
  "wait_measure timeout start line d =
     nat (\<lceil>(timeout - (clock d - start)) * 10\<rceil> + 1) + length (naps d)
     + 2 * count_list (pending d) 10 + length (rx d) + (if line = None then 0 else 1)"

lemma time_units_sleep:
  fixes r :: real
  assumes "\<not> r < 0"
  shows "nat (\<lceil>(r - 0.1) * 10\<rceil> + 1) < nat (\<lceil>r * 10\<rceil> + 1)"
proof -
  have "(r - 0.1) * 10 = r * 10 - 1" by (simp add: algebra_simps)
  moreover have "0 \<le> \<lceil>r * 10\<rceil>" using assms by (simp add: le_ceiling_iff)
  ultimately show ?thesis by simp
qed

lemma wait_measure_read:
  assumes "read_from_device d = (line', d')"
  shows "wait_measure timeout start line' d' \<le> wait_measure timeout start None d"
    and "wait_measure timeout start line' d' < wait_measure timeout start (Some l) d"
proof -
  show "wait_measure timeout start line' d' \<le> wait_measure timeout start None d"
  proof (cases line')
    case None
    with read_None[of d d'] assms show ?thesis by (simp add: wait_measure_def)
  next
    case (Some a)
    with read_Some[of d a d'] assms show ?thesis by (simp add: wait_measure_def)
  qed
  show "wait_measure timeout start line' d' < wait_measure timeout start (Some l) d"
  proof (cases line')
    case None
    with read_None[of d d'] assms show ?thesis by (simp add: wait_measure_def)
  next
    case (Some a)
    with read_Some[of d a d'] assms show ?thesis by (simp add: wait_measure_def)
  qed
qed

lemma wait_measure_sleep:
  assumes "\<not> clock d - start > timeout"
  shows "wait_measure timeout start None (sleep 0.1 d) < wait_measure timeout start None d"
proof (cases "naps d")
  case Nil
  have "\<not> timeout - (clock d - start) < 0" using assms by simp
  from time_units_sleep[OF this] Nil
  show ?thesis by (simp add: wait_measure_def sleep_def pending_def algebra_simps)
next
  case (Cons nap later)
  have "(timeout - (clock d + max 0 nap - start)) * 10 \<le> (timeout - (clock d - start)) * 10"
    by simp
  then have "\<lceil>(timeout - (clock d + max 0 nap - start)) * 10\<rceil>
               \<le> \<lceil>(timeout - (clock d - start)) * 10\<rceil>"
    by (rule ceiling_mono)
  with Cons show ?thesis
    by (simp add: wait_measure_def sleep_def pending_def)
qed

lemma await_term_sleep:
  assumes "\<not> timeout < clock d - start" and "(x, y) = read_from_device (sleep (1 / 10) d)"
  shows "wait_measure timeout start x y < wait_measure timeout start None d"
proof -
  have "wait_measure timeout start x y \<le> wait_measure timeout start None (sleep 0.1 d)"
    using wait_measure_read(1)[of "sleep 0.1 d" x y timeout start] assms(2) by simp
  also have "\<dots> < wait_measure timeout start None d"
    using wait_measure_sleep[where d=d and start=start and timeout=timeout] assms(1) by simp
  finally show ?thesis .
qed

lemma await_term_read:
  assumes "line \<noteq> None" and "(x, y) = read_from_device d"
  shows "wait_measure timeout start x y < wait_measure timeout start line d"
proof -
  obtain l where "line = Some l" using assms(1) by auto
  then show ?thesis
    using wait_measure_read(2)[of d x y timeout start l] assms(2) by simp
qed

section \<open>Waiting for a reply line\<close>

text \<open>
  The loop that \<open>request_info\<close> (for the header) and \<open>update_display\<close> (for each \<open>ok\<close>)
  run after a first \<open>line = self.read_from_device()\<close>:
  \<^verbatim>\<open>
  while line != expected:
      if time.time() - start > timeout: return False
      if line is None:
          time.sleep(0.1); line = self.read_from_device(); continue
      line = self.read_from_device()
  \<close>
  The result is \<open>False\<close> where the source returns \<open>False\<close> from inside the loop, and \<open>True\<close>
  where the loop ends.
\<close>

function await_line ::
  "pystr \<Rightarrow> real \<Rightarrow> real \<Rightarrow> pystr option \<Rightarrow> 'h device \<Rightarrow> bool \<times> 'h device" where
  "await_line expected timeout start line d =
     (if line = Some expected then (True, d)
      else if clock d - start > timeout then (False, d)
      else if line = None
           then (case read_from_device (sleep 0.1 d) of
                   (line', d') \<Rightarrow> await_line expected timeout start line' d')
           else (case read_from_device d of
                   (line', d') \<Rightarrow> await_line expected timeout start line' d'))"
  by pat_completeness auto
termination
  apply (relation "measure (\<lambda>(expected, timeout, start, line, d). wait_measure timeout start line d)")
    apply simp
   apply (simp (no_asm) only: in_measure prod.case)
   apply (hypsubst, erule (1) await_term_sleep)
  apply (simp (no_asm) only: in_measure prod.case)
  apply (erule (1) await_term_read)
  done

declare await_line.simps [simp del]

section \<open>Numbers in strings\<close>

text \<open>
  \<open>str.isdecimal()\<close>: the string is not empty and every character is a decimal digit.
  Of the code points that ISO-8859-16 decoding yields, the decimal digits are \<open>0\<close> to \<open>9\<close>;
  strings in this program come from that decoding.
\<close>

definition isdecimal_char :: "nat \<Rightarrow> bool" where
  "isdecimal_char c = (48 \<le> c \<and> c \<le> 57)"

definition isdecimal :: "pystr \<Rightarrow> bool" where
  "isdecimal str = (str \<noteq> [] \<and> list_all isdecimal_char str)"

text \<open>
  \<open>int(str)\<close>: white space around the number is dropped (of the code points at hand,
  \<open>int\<close> takes the eight listed as white space), one sign may lead, and single
  underscores may stand between digits; anything else is a \<open>ValueError\<close>, and so is a string
  with more digits than the interpreter's limit \<open>sys.int_max_str_digits\<close>, which is 4300
  unless it is configured otherwise (the controller does not configure it).
\<close>

definition int_max_str_digits :: nat where
  "int_max_str_digits = 4300"

definition int_space_char :: "nat \<Rightarrow> bool" where
  "int_space_char c = (c \<in> set [9, 10, 11, 12, 13, 32, 133, 160])"

definition strip :: "pystr \<Rightarrow> pystr" where
  "strip str = rev (dropWhile int_space_char (rev (dropWhile int_space_char str)))"

fun digits_value :: "pystr \<Rightarrow> nat \<Rightarrow> nat option" where
  "digits_value [] acc = Some acc"
| "digits_value [c] acc =
     (if isdecimal_char c then Some (10 * acc + (c - 48)) else None)"
| "digits_value (c # c' # cs) acc =
     (if isdecimal_char c then digits_value (c' # cs) (10 * acc + (c - 48))
      else if c = 95 \<and> isdecimal_char c' then digits_value cs (10 * acc + (c' - 48))
      else None)"

definition unsigned_value :: "pystr \<Rightarrow> nat option" where
  "unsigned_value str =
     (case str of [] \<Rightarrow> None
      | c # cs \<Rightarrow> if isdecimal_char c then digits_value str 0 else None)"

definition py_int :: "pystr \<Rightarrow> error + int" where
  "py_int str =
     (if int_max_str_digits < length (filter isdecimal_char str) then Inl ValueError
      else case strip str of
        [] \<Rightarrow> Inl ValueError
      | c # cs \<Rightarrow>
          if c = 45 then (case unsigned_value cs of None \<Rightarrow> Inl ValueError
                          | Some n \<Rightarrow> Inr (- int n))
          else if c = 43 then (case unsigned_value cs of None \<Rightarrow> Inl ValueError
                               | Some n \<Rightarrow> Inr (int n))
          else (case unsigned_value (c # cs) of None \<Rightarrow> Inl ValueError
                | Some n \<Rightarrow> Inr (int n)))"

text \<open>\<open>int(x)\<close> for a float \<open>x\<close>: truncation towards zero.\<close>

definition int_of_float :: "real \<Rightarrow> int" where
  "int_of_float x = (if 0 \<le> x then \<lfloor>x\<rfloor> else \<lceil>x\<rceil>)"

text \<open>The format \<open>06x\<close>: lower-case hexadecimal, padded with zeros to six characters,
  the sign counting as one of them.\<close>

fun hex_digits :: "nat \<Rightarrow> pystr" where
  "hex_digits n =
     (let c = (\<lambda>k. if k < 10 then 48 + k else 87 + k)
      in if n < 16 then [c n] else hex_digits (n div 16) @ [c (n mod 16)])"

declare hex_digits.simps [simp del]

definition zero_pad :: "nat \<Rightarrow> pystr \<Rightarrow> pystr" where
  "zero_pad width str = replicate (width - length str) 48 @ str"

definition format_06x :: "int \<Rightarrow> pystr" where
  "format_06x i =
     (if i < 0 then 45 # zero_pad 5 (hex_digits (nat (- i))) else zero_pad 6 (hex_digits (nat i)))"

section \<open>The methods of \<open>Device\<close>\<close>

subsection \<open>Key events\<close>

text \<open>What \<open>poll\<close> calls: \<open>callbacks[KeyCode.JOG.value](n)\<close> or \<open>callbacks[input]()\<close>.\<close>

datatype 'h call = JogCall 'h int | KeyCall 'h

text \<open>
  The two branches of \<open>poll\<close> for a line at hand. \<open>input[0]\<close> and \<open>input[1]\<close> raise
  \<open>IndexError\<close> beyond the end of the string; \<open>and\<close> and \<open>or\<close> evaluate from the left and
  stop as soon as the result is known.
\<close>

definition is_jog_line :: "protocol \<Rightarrow> pystr \<Rightarrow> error + bool" where
  "is_jog_line pc input =
     (if input = [] then Inl IndexError
      else if [input ! 0] \<noteq> KeyCode_JOG pc then Inr False
      else if isdecimal (drop 1 input) then Inr True
      else if length input < 2 then Inl IndexError
      else Inr (input ! 1 = 45 \<and> isdecimal (drop 2 input)))"

definition dispatch :: "protocol \<Rightarrow> (pystr \<rightharpoonup> 'h) \<Rightarrow> pystr \<Rightarrow> error + 'h call option" where
  "dispatch pc cbs input =
     (case is_jog_line pc input of
        Inl e \<Rightarrow> Inl e
      | Inr True \<Rightarrow>
          (case cbs (KeyCode_JOG pc) of
             None \<Rightarrow> Inr None
           | Some cb \<Rightarrow> (case py_int (drop 1 input) of
                           Inl e \<Rightarrow> Inl e
                         | Inr n \<Rightarrow> Inr (Some (JogCall cb n))))
      | Inr False \<Rightarrow>
          (case cbs input of
             None \<Rightarrow> Inr None
           | Some cb \<Rightarrow> Inr (Some (KeyCall cb))))"

definition poll :: "protocol \<Rightarrow> 'h device \<Rightarrow> (error + 'h call option) \<times> 'h device" where
  "poll pc d =
     (case read_from_device d of
        (None, d') \<Rightarrow> (Inr None, d')
      | (Some input, d') \<Rightarrow> (dispatch pc (callbacks d') input, d'))"

definition register_callback :: "'h \<Rightarrow> pystr \<Rightarrow> 'h device \<Rightarrow> 'h device" where
  "register_callback cb key d = d\<lparr>callbacks := (callbacks d)(key \<mapsto> cb)\<rparr>"

definition clear_callback :: "pystr \<Rightarrow> 'h device \<Rightarrow> 'h device" where
  "clear_callback key d = d\<lparr>callbacks := (callbacks d)(key := None)\<rparr>"

definition clear_callbacks :: "'h device \<Rightarrow> 'h device" where
  "clear_callbacks d = d\<lparr>callbacks := Map.empty\<rparr>"

subsection \<open>LEDs\<close>

definition send_led :: "protocol \<Rightarrow> pystr list \<Rightarrow> 'h device \<Rightarrow> 'h device" where
  "send_led pc colors d = send_to_device (CommandCode_LED pc @ s '' '' @ join (s '' '') colors) d"

definition send_led_animation ::
  "protocol \<Rightarrow> int \<Rightarrow> int \<Rightarrow> int \<Rightarrow> int \<Rightarrow> int \<Rightarrow> int \<Rightarrow> int \<Rightarrow> int \<Rightarrow> 'h device \<Rightarrow> 'h device" where
  "send_led_animation pc animation steps delay brightness r g b iteration d =
     send_to_device
       (CommandCode_ANIMATE pc @ s '' '' @ str_int animation @ s '' '' @ str_int steps
        @ s '' '' @ str_int delay @ s '' '' @ str_int brightness @ s '' '' @ str_int r
        @ s '' '' @ str_int g @ s '' '' @ str_int b @ s '' '' @ str_int iteration) d"

definition set_leds :: "protocol \<Rightarrow> int list \<Rightarrow> 'h device \<Rightarrow> 'h device" where
  "set_leds pc leds d =
     (let ledStr = map format_06x leds;
          d1 = d\<lparr>led_set_time := Some (clock d)\<rparr>;
          d2 = d1\<lparr>led_state := Some leds\<rparr>
      in send_led pc ledStr d2)"

definition dimmed :: "real \<Rightarrow> int \<Rightarrow> int" where
  "dimmed p i =
     (int_of_float (real_of_int (i AND 0xff0000) * p) AND 0xff0000)
     OR (int_of_float (real_of_int (i AND 0xff00) * p) AND 0xff00)
     OR (int_of_float (real_of_int (i AND 0xff) * p) AND 0xff)"

definition fade_factor :: "real \<Rightarrow> real \<Rightarrow> real" where
  "fade_factor now set_time = (3.5 - (now - set_time)) / 0.5"

definition fade_leds :: "protocol \<Rightarrow> 'h device \<Rightarrow> error + 'h device" where
  "fade_leds pc d =
     (case led_state d of
        None \<Rightarrow> Inr d
      | Some state \<Rightarrow>
          (case led_set_time d of
             None \<Rightarrow> Inl TypeError
           | Some set_time \<Rightarrow>
               (let p = fade_factor (clock d) set_time
                in if p \<ge> 1 then Inr d
                   else if p \<le> 0
                   then Inr (send_led pc (replicate (nat (num_of_leds d)) (s ''000000''))
                               (d\<lparr>led_state := None\<rparr>))
                   else Inr (send_led pc (map format_06x (map (dimmed p) state)) d))))"

subsection \<open>Images and the display\<close>

definition display_command :: "protocol \<Rightarrow> int \<Rightarrow> int \<Rightarrow> image \<Rightarrow> pystr" where
  "display_command pc x y img =
     (case size img of (w, h) \<Rightarrow>
        CommandCode_DISPLAY pc @ s '' '' @ str_int x @ s '' '' @ str_int y
        @ s '' '' @ str_int w @ s '' '' @ str_int h)"

definition send_image :: "protocol \<Rightarrow> int \<Rightarrow> int \<Rightarrow> image \<Rightarrow> 'h device \<Rightarrow> bool \<times> 'h device" where
  "send_image pc x y img d =
     (let d1 = d\<lparr>image_buffer := image_buffer d @ [\<lparr>part_x = x, part_y = y, part_image = img\<rparr>]\<rparr>;
          data = rotated_bytes img;
          d2 = send_to_device (display_command pc x y img) d1;
          d3 = send_binary_to_device data d2
      in (True, d3))"

definition resend_part :: "protocol \<Rightarrow> part \<Rightarrow> 'h device \<Rightarrow> 'h device" where
  "resend_part pc p d =
     (let img = part_image p;
          x = part_x p;
          y = part_y p;
          data = rotated_bytes img;
          d1 = send_to_device (display_command pc x y img) d
      in send_binary_to_device data d1)"

definition resend_image_data :: "protocol \<Rightarrow> 'h device \<Rightarrow> 'h device" where
  "resend_image_data pc d = (fold (resend_part pc) (image_buffer d) d)\<lparr>image_buffer := []\<rparr>"

definition reset_display :: "protocol \<Rightarrow> 'h device \<Rightarrow> 'h device" where
  "reset_display pc d =
     send_to_device (CommandCode_REFRESH pc @ s '' '' @ RefreshTypeCode_RESET pc) d"

text \<open>What a Python function hands back: \<open>None\<close> at the end of its body, or a Boolean.\<close>

datatype retval = ReturnsNone | Returns bool

fun truthy :: "retval \<Rightarrow> bool" where
  "truthy ReturnsNone = False"
| "truthy (Returns b) = b"

definition update_display ::
  "protocol \<Rightarrow> bool \<Rightarrow> real \<Rightarrow> bool \<Rightarrow> 'h device \<Rightarrow> retval \<times> 'h device" where
  "update_display pc full_refresh timeout buffer_data d =
     (let start = clock d;
          d1 = send_to_device
                 (CommandCode_REFRESH pc @ s '' ''
                  @ (if full_refresh then RefreshTypeCode_FULL pc else RefreshTypeCode_PARTIAL pc)) d
      in case read_from_device d1 of (line, d2) \<Rightarrow>
         (case await_line (s ''ok'') timeout start line d2 of
            (False, d3) \<Rightarrow> (Returns False, d3)
          | (True, d3) \<Rightarrow>
              if buffer_data
              then (let d4 = resend_image_data pc d3;
                        d5 = send_to_device
                               (CommandCode_REFRESH pc @ s '' '' @ RefreshTypeCode_OFF pc) d4;
                        start2 = clock d5
                    in case read_from_device d5 of (line2, d6) \<Rightarrow>
                       (case await_line (s ''ok'') timeout start2 line2 d6 of
                          (False, d7) \<Rightarrow> (Returns False, d7)
                        | (True, d7) \<Rightarrow> (ReturnsNone, d7)))
              else (ReturnsNone, d3)))"

subsection \<open>The handshake\<close>







section \<open>The main loop of the controller\<close>

text \<open>
  A mode object: its identity (Python compares modes as objects) and what its \<open>activate\<close>
  does to the device. No class of \<open>modes.py\<close> overrides \<open>ModeBase.deactivate\<close>, so
  \<open>current_mode.deactivate(device)\<close> is that method for every mode.
\<close>

record 'h mode =
  mode_id :: nat
  activate :: "'h device \<Rightarrow> 'h device"

definition ModeBase_deactivate :: "'h device \<Rightarrow> 'h device" where
  "ModeBase_deactivate d = clear_callbacks d"

text \<open>
  An entry of the list \<open>modes\<close>: a dictionary with the key \<open>"mode"\<close> and, optionally,
  \<open>"process"\<close> and \<open>"activeWindow"\<close>. A compiled pattern is the predicate "\<open>match\<close> finds a
  match in this string"; \<open>match(None)\<close> raises \<open>TypeError\<close>.
\<close>

record 'h rule =
  rule_mode :: "'h mode"
  process :: "pystr option"
  activeWindow :: "(pystr \<Rightarrow> bool) option"

definition if_matching_mode ::
  "pystr set \<Rightarrow> pystr option \<Rightarrow> 'h rule \<Rightarrow> error + bool" where
  "if_matching_mode processes active_window r =
     (if (case process r of None \<Rightarrow> False | Some p \<Rightarrow> p \<in> processes) then Inr True
      else (case activeWindow r of
              None \<Rightarrow> Inr (\<not> (process r \<noteq> None \<or> activeWindow r \<noteq> None))
            | Some pat \<Rightarrow>
                (case active_window of
                   None \<Rightarrow> Inl TypeError
                 | Some w \<Rightarrow>
                     if pat w then Inr True
                     else Inr (\<not> (process r \<noteq> None \<or> activeWindow r \<noteq> None)))))"

text \<open>\<open>list(filter(if_matching_mode, modes))\<close> tests every entry, in order.\<close>

fun filter_modes ::
  "pystr set \<Rightarrow> pystr option \<Rightarrow> 'h rule list \<Rightarrow> error + 'h rule list" where
  "filter_modes processes active_window [] = Inr []"
| "filter_modes processes active_window (r # rs) =
     (case if_matching_mode processes active_window r of
        Inl e \<Rightarrow> Inl e
      | Inr b \<Rightarrow>
          (case filter_modes processes active_window rs of
             Inl e \<Rightarrow> Inl e
           | Inr ms \<Rightarrow> Inr (if b then r # ms else ms)))"

definition first_matching_mode ::
  "pystr set \<Rightarrow> pystr option \<Rightarrow> 'h rule list \<Rightarrow> error + 'h rule" where
  "first_matching_mode processes active_window modes =
     (case filter_modes processes active_window modes of
        Inl e \<Rightarrow> Inl e
      | Inr [] \<Rightarrow> Inl IndexError
      | Inr (m # ms) \<Rightarrow> Inr m)"

text \<open>The local variables of \<open>work\<close> that the mode check reads and writes.\<close>

record 'h work_state =
  current_mode :: "'h mode option"
  poll_interval :: "real option"
  last_mode_check :: real
  active_window :: "pystr option"

definition GET_ACTIVE_WINDOW_INTERVAL :: real where
  "GET_ACTIVE_WINDOW_INTERVAL = 0.5"

text \<open>
  Leaving the current mode: \<open>deactivate\<close>, the LED animation, \<open>reset_display\<close>. The state
  it yields is the one the next mode's \<open>activate\<close> starts from.
\<close>

definition leave_mode :: "protocol \<Rightarrow> 'h mode option \<Rightarrow> 'h device \<Rightarrow> 'h device" where
  "leave_mode pc cur d =
     (case cur of
        None \<Rightarrow> d
      | Some m \<Rightarrow>
          (let d1 = ModeBase_deactivate d;
               d2 = send_led_animation pc 2 50 20 0 0 0 255 2 d1
           in reset_display pc d2))"

definition switch_mode ::
  "protocol \<Rightarrow> 'h mode \<Rightarrow> 'h work_state \<Rightarrow> 'h device \<Rightarrow> 'h work_state \<times> 'h device" where
  "switch_mode pc new st d =
     (let d1 = leave_mode pc (current_mode st) d;
          st1 = st\<lparr>current_mode := Some new\<rparr>;
          d2 = activate new d1
      in (st1\<lparr>poll_interval := Some 0\<rparr>, d2))"

text \<open>
  The mode check of one iteration; \<open>now\<close> is the time at its start and \<open>window\<close> what
  \<open>get_active_window()\<close> returns.
\<close>

definition mode_check ::
  "protocol \<Rightarrow> 'h rule list \<Rightarrow> pystr set \<Rightarrow> pystr option \<Rightarrow> real \<Rightarrow> 'h work_state \<Rightarrow> 'h device
   \<Rightarrow> error + ('h work_state \<times> 'h device)" where
  "mode_check pc modes processes window now st d =
     (if now - last_mode_check st > GET_ACTIVE_WINDOW_INTERVAL
      then (let st1 = (case window of None \<Rightarrow> st | Some w \<Rightarrow> st\<lparr>active_window := Some w\<rparr>)
            in case first_matching_mode processes (active_window st1) modes of
                 Inl e \<Rightarrow> Inl e
               | Inr fm \<Rightarrow>
                   (case (if map_option mode_id (current_mode st1) \<noteq> Some (mode_id (rule_mode fm))
                          then switch_mode pc (rule_mode fm) st1 d
                          else (st1, d)) of
                      (st2, d2) \<Rightarrow> Inr (st2\<lparr>last_mode_check := now\<rparr>, d2)))
      else Inr (st, d))"

text \<open>The end of an iteration that started at \<open>now\<close>.\<close>

definition time_to_30_fps :: "real \<Rightarrow> 'h device \<Rightarrow> real" where
  "time_to_30_fps now d = clock d - now + 0.0333"

definition frame_sleep :: "real \<Rightarrow> 'h device \<Rightarrow> 'h device" where
  "frame_sleep now d = (if time_to_30_fps now d > 0 then sleep (time_to_30_fps now d) d else d)"

section \<open>Concrete values for the examples\<close>

text \<open>
  The state \<open>Device.__init__\<close> sets up, connected to a port that will deliver the chunks
  \<open>chunks\<close>, at time \<open>0\<close>.
\<close>

definition Device_init :: "byte list list \<Rightarrow> 'h device" where
  "Device_init chunks =
     \<lparr>rx = chunks, tx = [], clock = 0, naps = [], testmode = False, inbuffer = [], num_of_leds = 0,
      display_width = 0, display_height = 0, rotation_circle_steps = 0, image_buffer = [],
      callbacks = Map.empty, led_state = None, led_set_time = None\<rparr>"

text \<open>An assignment of the protocol constants, used where an example needs one.\<close>

definition example_protocol :: protocol where
  "example_protocol =
     \<lparr>KeyCode_JOG = s ''R'', CommandCode_LED = s ''L'', CommandCode_ANIMATE = s ''T'',
      CommandCode_INFO = s ''I'', CommandCode_DISPLAY = s ''D'', CommandCode_REFRESH = s ''R'',
      RefreshTypeCode_FULL = s ''f'', RefreshTypeCode_PARTIAL = s ''p'',
      RefreshTypeCode_OFF = s ''o'', RefreshTypeCode_RESET = s ''r''\<rparr>"

text \<open>The bytes of an ASCII string, as the device sends them.\<close>

definition ascii :: "string \<Rightarrow> byte list" where
  "ascii lit = map of_char lit"

text \<open>
  Three mode objects, each registering a handler of its own for the key \<open>2p\<close>, a list of
  rules in the shape of the list \<open>modes\<close> of \<open>controller.py\<close> (the pattern \<open>^gimp.*\<close> matches
  the strings that start with \<open>gimp\<close>), and a state of the loop in which the third mode is
  active.
\<close>

definition example_mode :: "nat \<Rightarrow> nat mode" where
  "example_mode n = \<lparr>mode_id = n, activate = register_callback n (s ''2p'')\<rparr>"

definition example_modes :: "nat rule list" where
  "example_modes =
     [\<lparr>rule_mode = example_mode 1, process = None,
       activeWindow = Some (\<lambda>w. startswith w (s ''gimp''))\<rparr>,
      \<lparr>rule_mode = example_mode 2, process = Some (s ''obs''), activeWindow = None\<rparr>,
      \<lparr>rule_mode = example_mode 3, process = None, activeWindow = None\<rparr>]"

definition example_state :: "nat work_state" where
  "example_state =
     \<lparr>current_mode = Some (example_mode 3), poll_interval = None, last_mode_check = 0,
      active_window = Some (s ''xterm'')\<rparr>"

definition example_device :: "nat device" where
  "example_device = register_callback 3 (s ''2p'') (Device_init [])"

section \<open>The frame budget\<close>

text \<open>
  C2. The comment in \<open>work\<close> reads "Sleep until 1/30 sec have passed", and the claim is
  that the loop sleeps for the budget minus the time the iteration took, never a negative
  time. The code computes \<open>time.time() - now + 0.0333\<close>, the time the iteration took
  \<^emph>\<open>plus\<close> the budget: an iteration that started at time 0 and took 0.01 s sleeps
  0.0433 s (not 0.0233 s), and one that took 0.05 s, beyond the budget, sleeps 0.0833 s
  instead of going on at once.
\<close>

theorem frame_sleep_adds_elapsed_time:
  "clock (frame_sleep 0 ((Device_init [] :: unit device)\<lparr>clock := 0.01\<rparr>)) - 0.01 = 0.0433
   \<and> clock (frame_sleep 0 ((Device_init [] :: unit device)\<lparr>clock := 0.05\<rparr>)) - 0.05 = 0.0833"
  by (simp add: frame_sleep_def time_to_30_fps_def sleep_def Device_init_def)

section \<open>Mode selection\<close>

text \<open>
  The spec's reading of a rule's predicate: the process name is among the running
  processes, or the pattern matches the window title, or the rule has no predicate.
\<close>

definition spec_matches :: "pystr set \<Rightarrow> pystr \<Rightarrow> 'h rule \<Rightarrow> bool" where
  "spec_matches processes w r =
     ((case process r of None \<Rightarrow> False | Some p \<Rightarrow> p \<in> processes)
      \<or> (case activeWindow r of None \<Rightarrow> False | Some pat \<Rightarrow> pat w)
      \<or> (process r = None \<and> activeWindow r = None))"

lemma if_matching_mode_window:
  "if_matching_mode processes (Some w) r = Inr (spec_matches processes w r)"
  by (auto simp: if_matching_mode_def spec_matches_def split: option.splits)

lemma filter_modes_window:
  "filter_modes processes (Some w) rs = Inr (filter (spec_matches processes w) rs)"
  by (induction rs) (simp_all add: if_matching_mode_window)

text \<open>
  Once a window title is known: for a list of rules that ends in a rule without
  predicate, the selection is the first rule of the list whose predicate matches (\<open>find\<close>
  yields the earliest one), and the last rule when no earlier one matches.
\<close>

theorem first_match_wins:
  assumes "process fb = None" and "activeWindow fb = None"
  shows "first_matching_mode processes (Some w) (rs @ [fb]) =
           Inr (case find (spec_matches processes w) rs of Some r \<Rightarrow> r | None \<Rightarrow> fb)"
proof -
  have fb: "spec_matches processes w fb" using assms by (simp add: spec_matches_def)
  show ?thesis
  proof (cases "find (spec_matches processes w) rs")
    case None
    then have "filter (spec_matches processes w) rs = []"
      by (auto simp: find_None_iff filter_empty_conv)
    with None fb show ?thesis
      by (simp add: first_matching_mode_def filter_modes_window)
  next
    case (Some r)
    then obtain i where i: "i < length rs" "spec_matches processes w (rs ! i)" "r = rs ! i"
      "\<forall>j<i. \<not> spec_matches processes w (rs ! j)"
      by (auto simp: find_Some_iff)
    have "filter (spec_matches processes w) rs
            = r # filter (spec_matches processes w) (drop (Suc i) rs)"
    proof -
      have "rs = take i rs @ rs ! i # drop (Suc i) rs" using i(1) by (simp add: id_take_nth_drop)
      moreover have "filter (spec_matches processes w) (take i rs) = []"
        using i(1,4) by (auto simp: filter_empty_conv in_set_conv_nth)
      ultimately show ?thesis using i(2,3)
        by (metis append_Nil filter.simps(2) filter_append)
    qed
    with Some show ?thesis
      by (simp add: first_matching_mode_def filter_modes_window)
  qed
qed

theorem first_match_wins_witness:
  "process (example_modes ! 2) = None \<and> activeWindow (example_modes ! 2) = None
   \<and> map_sum id (mode_id \<circ> rule_mode)
        (first_matching_mode {s ''obs''} (Some (s ''gimp-2.10''))
           (take 2 example_modes @ [example_modes ! 2])) = Inr 1
   \<and> map_sum id (mode_id \<circ> rule_mode)
        (first_matching_mode {} (Some (s ''xterm''))
           (take 2 example_modes @ [example_modes ! 2])) = Inr 3"
  using first_match_wins [of "example_modes ! 2" "{s ''obs''}" "s ''gimp-2.10''" "take 2 example_modes"]
        first_match_wins [of "example_modes ! 2" "{}" "s ''xterm''" "take 2 example_modes"]
  by (simp add: example_modes_def example_mode_def spec_matches_def startswith_def s_def)

text \<open>The local variables of \<open>work\<close> when the loop starts.\<close>

definition work_init :: "nat work_state" where
  "work_init =
     \<lparr>current_mode = None, poll_interval = Some 0, last_mode_check = 0, active_window = None\<rparr>"

text \<open>
  C7. The claim is that each mode check selects the earliest rule whose predicate matches,
  and the fallback rule when none does. \<open>work\<close> starts with \<open>active_window = None\<close> and keeps
  it while \<open>get_active_window()\<close> returns \<open>None\<close> ("Ignore failures to get the active
  window", says the comment). In such a mode check the rule with a window pattern makes
  \<open>match(None)\<close> raise \<open>TypeError\<close>: no rule is selected, neither the rule whose process is
  running nor the fallback, and the first mode check of the loop ends in the exception.
\<close>

theorem mode_check_without_window:
  "first_matching_mode {s ''obs''} None example_modes = Inl TypeError
   \<and> first_matching_mode {} None example_modes = Inl TypeError
   \<and> mode_check example_protocol example_modes {s ''obs''} None 1 work_init (Device_init [])
       = Inl TypeError"
  by (simp add: mode_check_def first_matching_mode_def if_matching_mode_def example_modes_def
        work_init_def GET_ACTIVE_WINDOW_INTERVAL_def)

section \<open>Mode transitions\<close>

lemma callbacks_send_to_device [simp]: "callbacks (send_to_device c d) = callbacks d"
  by (simp add: send_to_device_def ser_write_def)

lemma leave_mode_callbacks: "callbacks (leave_mode pc (Some m) d) = Map.empty"
  by (simp add: leave_mode_def Let_def reset_display_def send_led_animation_def
        ModeBase_deactivate_def clear_callbacks_def)

lemma leave_mode_forgets: "leave_mode pc (Some m) (d\<lparr>callbacks := c\<rparr>) = leave_mode pc (Some m) d"
  by (simp add: leave_mode_def Let_def reset_display_def send_led_animation_def
        ModeBase_deactivate_def clear_callbacks_def)

lemma dispatch_empty: "dispatch pc Map.empty input \<noteq> Inr (Some c)"
  by (auto simp: dispatch_def split: sum.splits bool.splits)

lemma poll_no_callbacks:
  assumes "callbacks d = Map.empty"
  shows "fst (poll pc d) \<noteq> Inr (Some c)"
proof -
  obtain line d' where r: "read_from_device d = (line, d')" by (cases "read_from_device d")
  then have "callbacks d' = callbacks d"
    by (auto simp: read_from_device_def Let_def split: option.splits if_splits)
  with r assms show ?thesis
    by (cases line) (simp_all add: poll_def dispatch_empty)
qed

text \<open>
  C8. When a mode check finds that the selected mode is not the current one, the state in
  which the new mode's \<open>activate\<close> starts is the one \<open>deactivate\<close> (and the two commands
  after it) left: it has no handler registered, a \<open>poll\<close> in it calls no handler, and the
  outcome of the transition is the same whatever handlers were registered before it. So
  after the transition only handlers that the new mode's \<open>activate\<close> registered can be
  called.
\<close>

theorem handlers_cleared_before_activate:
  assumes "current_mode st = Some old"
      and "now - last_mode_check st > GET_ACTIVE_WINDOW_INTERVAL"
      and "first_matching_mode processes
             (case window of None \<Rightarrow> active_window st | Some w \<Rightarrow> Some w) modes = Inr fm"
      and "mode_id (rule_mode fm) \<noteq> mode_id old"
  shows "callbacks (leave_mode pc (Some old) d) = Map.empty
         \<and> (\<forall>c. fst (poll pc (leave_mode pc (Some old) d)) \<noteq> Inr (Some c))
         \<and> map_sum id snd (mode_check pc modes processes window now st d)
             = Inr (activate (rule_mode fm) (leave_mode pc (Some old) d))
         \<and> mode_check pc modes processes window now st (d\<lparr>callbacks := cbs\<rparr>)
             = mode_check pc modes processes window now st d"
proof -
  let ?st1 = "case window of None \<Rightarrow> st | Some w \<Rightarrow> st\<lparr>active_window := Some w\<rparr>"
  have aw: "active_window ?st1 = (case window of None \<Rightarrow> active_window st | Some w \<Rightarrow> Some w)"
    and cm: "current_mode ?st1 = Some old"
    using assms(1) by (simp_all split: option.splits)
  show ?thesis
    using assms(2-4) aw cm
    by (simp add: leave_mode_callbacks poll_no_callbacks mode_check_def switch_mode_def Let_def
          leave_mode_forgets)
qed

theorem handlers_cleared_before_activate_witness:
  "current_mode example_state = Some (example_mode 3)
   \<and> 1 - last_mode_check example_state > GET_ACTIVE_WINDOW_INTERVAL
   \<and> first_matching_mode {} (Some (s ''gimp-2.10'')) example_modes = Inr (example_modes ! 0)
   \<and> mode_id (rule_mode (example_modes ! 0)) \<noteq> mode_id (example_mode 3)
   \<and> callbacks example_device (s ''2p'') = Some 3
   \<and> callbacks (leave_mode example_protocol (Some (example_mode 3)) example_device) = Map.empty
   \<and> map_sum id snd
        (mode_check example_protocol example_modes {} (Some (s ''gimp-2.10'')) 1 example_state
           example_device)
       = Inr (activate (example_mode 1)
                (leave_mode example_protocol (Some (example_mode 3)) example_device))"
proof -
  have h1: "current_mode example_state = Some (example_mode 3)"
    by (simp add: example_state_def)
  have h2: "1 - last_mode_check example_state > GET_ACTIVE_WINDOW_INTERVAL"
    by (simp add: example_state_def GET_ACTIVE_WINDOW_INTERVAL_def)
  have h3: "first_matching_mode {}
              (case Some (s ''gimp-2.10'') of None \<Rightarrow> active_window example_state | Some w \<Rightarrow> Some w)
              example_modes = Inr (example_modes ! 0)"
    by (simp add: example_modes_def first_matching_mode_def if_matching_mode_def
          startswith_def s_def)
  have h4: "mode_id (rule_mode (example_modes ! 0)) \<noteq> mode_id (example_mode 3)"
    by (simp add: example_modes_def example_mode_def)
  have h5: "callbacks example_device (s ''2p'') = Some 3"
    by (simp add: example_device_def register_callback_def)
  have h6: "rule_mode (example_modes ! 0) = example_mode 1"
    by (simp add: example_modes_def)
  from handlers_cleared_before_activate [OF h1 h2 h3 h4, of example_protocol example_device Map.empty]
  show ?thesis using h1 h2 h3 h4 h5 h6 by simp
qed

section \<open>Chunked transfer of images\<close>

text \<open>
  The spec's description of \<open>writeChunked\<close>: the data cut into pieces of \<open>n\<close> bytes, the last
  one possibly shorter.
\<close>

function spec_chunks :: "nat \<Rightarrow> 'a list \<Rightarrow> 'a list list" where
  "spec_chunks n xs = (if n = 0 \<or> xs = [] then [] else take n xs # spec_chunks n (drop n xs))"
  by pat_completeness auto
termination
  by (relation "measure (\<lambda>(n, xs). length xs)") auto

declare spec_chunks.simps [simp del]

lemma concat_spec_chunks: "0 < n \<Longrightarrow> concat (spec_chunks n xs) = xs"
  by (induction n xs rule: spec_chunks.induct) (subst spec_chunks.simps, simp)

lemma spec_chunks_lengths:
  "c \<in> set (spec_chunks n xs) \<Longrightarrow> 0 < length c \<and> length c \<le> n"
  by (induction n xs rule: spec_chunks.induct) (subst (asm) (2) spec_chunks.simps, auto split: if_splits)

lemma spec_chunks_full:
  "c \<in> set (butlast (spec_chunks n xs)) \<Longrightarrow> length c = n"
proof (induction n xs rule: spec_chunks.induct)
  case (1 n xs)
  show ?case
  proof (cases "n = 0 \<or> xs = []")
    case True
    with "1.prems" show ?thesis by (subst (asm) spec_chunks.simps) simp
  next
    case False
    show ?thesis
    proof (cases "spec_chunks n (drop n xs) = []")
      case True
      with False "1.prems" show ?thesis by (subst (asm) spec_chunks.simps) simp
    next
      case ne: False
      then have "drop n xs \<noteq> []" by (subst (asm) spec_chunks.simps) (auto split: if_splits)
      then have len: "n < length xs" by simp
      from "1.prems" False ne
      have "c = take n xs \<or> c \<in> set (butlast (spec_chunks n (drop n xs)))"
        by (subst (asm) spec_chunks.simps) auto
      then show ?thesis using "1.IH" False len by auto
    qed
  qed
qed

lemma tx_send_chunks:
  "endIx = startIx + CHUNK_SIZE \<Longrightarrow>
   send_chunks data startIx endIx d = d\<lparr>tx := tx d @ map Raw (spec_chunks CHUNK_SIZE (drop startIx data))\<rparr>"
proof (induction data startIx endIx d rule: send_chunks.induct)
  case (1 data startIx endIx d)
  show ?case
  proof (cases "startIx < length data")
    case True
    have sl: "py_slice data startIx (startIx + CHUNK_SIZE) = take CHUNK_SIZE (drop startIx data)"
      by (simp add: py_slice_def take_drop add.commute)
    have ch: "spec_chunks CHUNK_SIZE (drop startIx data)
                = take CHUNK_SIZE (drop startIx data) # spec_chunks CHUNK_SIZE (drop (startIx + CHUNK_SIZE) data)"
      using True by (subst spec_chunks.simps) (simp add: CHUNK_SIZE_def add.commute)
    from "1.IH"[OF True] "1.prems" True show ?thesis
      by (subst send_chunks.simps) (simp add: sl ch ser_write_def)
  next
    case False
    then show ?thesis
      by (subst send_chunks.simps, subst spec_chunks.simps) simp
  qed
qed

lemma send_binary_to_device_eq:
  "send_binary_to_device data d = d\<lparr>tx := tx d @ map Raw (spec_chunks CHUNK_SIZE data)\<rparr>"
  using tx_send_chunks[of CHUNK_SIZE 0 data d] by (simp add: send_binary_to_device_def)

text \<open>What the transmission of one image region writes to the port.\<close>

definition spec_region_output :: "protocol \<Rightarrow> part \<Rightarrow> written list" where
  "spec_region_output pc p =
     Encoded (display_command pc (part_x p) (part_y p) (part_image p) @ s ''\<newline>'')
     # map Raw (spec_chunks CHUNK_SIZE (rotated_bytes (part_image p)))"

lemma resend_part_eq:
  "resend_part pc p d = d\<lparr>tx := tx d @ spec_region_output pc p\<rparr>"
  by (simp add: resend_part_def Let_def send_binary_to_device_eq send_to_device_def ser_write_def
        spec_region_output_def)

lemma fold_resend_part:
  "fold (resend_part pc) ps d = d\<lparr>tx := tx d @ concat (map (spec_region_output pc) ps)\<rparr>"
  by (induction ps arbitrary: d) (simp_all add: resend_part_eq)

lemma resend_image_data_eq:
  "resend_image_data pc d =
     d\<lparr>tx := tx d @ concat (map (spec_region_output pc) (image_buffer d)), image_buffer := []\<rparr>"
  by (simp add: resend_image_data_def fold_resend_part)

lemma send_image_eq:
  "send_image pc x y img d =
     (True, d\<lparr>image_buffer := image_buffer d @ [\<lparr>part_x = x, part_y = y, part_image = img\<rparr>],
              tx := tx d @ spec_region_output pc \<lparr>part_x = x, part_y = y, part_image = img\<rparr>\<rparr>)"
  by (simp add: send_image_def Let_def send_binary_to_device_eq send_to_device_def ser_write_def
        spec_region_output_def)

definition example_image :: image where
  "example_image = \<lparr>size = (50, 40), rotated_bytes = replicate 250 0xFF\<rparr>"

lemma example_chunks:
  "spec_chunks 100 (replicate 250 (0xFF :: byte))
     = [replicate 100 0xFF, replicate 100 0xFF, replicate 50 0xFF]"
  by (simp add: spec_chunks.simps)

lemma example_display_command:
  "display_command example_protocol 7 0 example_image = s ''D 7 0 50 40''"
  by (simp add: display_command_def example_protocol_def example_image_def str_int_def
        digits.simps s_def)

text \<open>
  C9. An image sent with \<open>send_image\<close> (into an empty buffer) and then resent with
  \<open>resend_image_data\<close> is written twice in the same way: the same display command, then
  the same bytes in the same pieces of 100 bytes, whose concatenation is the bitmap; every
  piece but the last has 100 bytes and the last one between 1 and 100.
\<close>

theorem resend_repeats_send:
  assumes "image_buffer d = []"
  shows "tx (snd (send_image pc x y img d))
           = tx d @ Encoded (display_command pc x y img @ s ''\<newline>'')
                    # map Raw (spec_chunks 100 (rotated_bytes img))
         \<and> tx (resend_image_data pc (snd (send_image pc x y img d)))
           = tx (snd (send_image pc x y img d))
             @ Encoded (display_command pc x y img @ s ''\<newline>'')
               # map Raw (spec_chunks 100 (rotated_bytes img))
         \<and> concat (spec_chunks 100 (rotated_bytes img)) = rotated_bytes img
         \<and> (\<forall>c \<in> set (spec_chunks 100 (rotated_bytes img)). 0 < length c \<and> length c \<le> 100)
         \<and> (\<forall>c \<in> set (butlast (spec_chunks 100 (rotated_bytes img))). length c = 100)"
  using assms
  by (auto simp: send_image_eq resend_image_data_eq spec_region_output_def CHUNK_SIZE_def
        concat_spec_chunks dest: spec_chunks_lengths spec_chunks_full)

theorem resend_repeats_send_witness:
  "image_buffer (Device_init [] :: unit device) = []
   \<and> tx (resend_image_data example_protocol
            (snd (send_image example_protocol 7 0 example_image (Device_init [] :: unit device))))
       = [Encoded (s ''D 7 0 50 40\<newline>''),
          Raw (replicate 100 0xFF), Raw (replicate 100 0xFF), Raw (replicate 50 0xFF),
          Encoded (s ''D 7 0 50 40\<newline>''),
          Raw (replicate 100 0xFF), Raw (replicate 100 0xFF), Raw (replicate 50 0xFF)]"
proof -
  have h: "image_buffer (Device_init [] :: unit device) = []"
    by (simp add: Device_init_def)
  have t0: "tx (Device_init [] :: unit device) = []"
    by (simp add: Device_init_def)
  have r: "rotated_bytes example_image = replicate 250 0xFF"
    by (simp add: example_image_def)
  from resend_repeats_send [OF h, of example_protocol 7 0 example_image]
  show ?thesis
    using h by (simp add: t0 r example_chunks example_display_command s_def)
qed

section \<open>Decoding of received bytes\<close>

lemma upper_length: "length iso8859_16_upper = 95"
  by (simp add: iso8859_16_upper_def)

lemma upper_beyond: "\<forall>c \<in> set iso8859_16_upper. 160 < c"
  by (simp add: iso8859_16_upper_def)

lemma upper_distinct: "distinct iso8859_16_upper"
  by (simp add: iso8859_16_upper_def)

lemma unat_byte_bound: "unat (b :: byte) < 256"
  using unsigned_less[of b, where ?'a = nat] by simp

lemma decode_byte_low:
  assumes "c \<le> 160"
  shows "decode_byte b = c \<longleftrightarrow> unat b = c"
proof (cases "unat b \<le> 160")
  case True
  then show ?thesis by (simp add: decode_byte_def)
next
  case False
  then have "unat b - 161 < length iso8859_16_upper"
    using unat_byte_bound[of b] by (simp add: upper_length)
  then have "iso8859_16_upper ! (unat b - 161) \<in> set iso8859_16_upper" by simp
  then have "160 < iso8859_16_upper ! (unat b - 161)" using upper_beyond by blast
  with False assms show ?thesis by (simp add: decode_byte_def)
qed

lemma decode_byte_newline: "decode_byte b = 10 \<longleftrightarrow> b = 10"
  using decode_byte_low[of 10 b] by (simp add: word_unat_eq_iff)

lemma decode_byte_return: "decode_byte b = 13 \<longleftrightarrow> b = 13"
  using decode_byte_low[of 13 b] by (simp add: word_unat_eq_iff)

lemma inj_decode_byte: "inj decode_byte"
proof (rule injI)
  fix a b :: byte
  assume eq: "decode_byte a = decode_byte b"
  have up: "160 < decode_byte x" if "\<not> unat x \<le> 160" for x :: byte
  proof -
    from that have "unat x - 161 < length iso8859_16_upper"
      using unat_byte_bound[of x] by (simp add: upper_length)
    then have "iso8859_16_upper ! (unat x - 161) \<in> set iso8859_16_upper" by simp
    with upper_beyond that show ?thesis by (auto simp: decode_byte_def)
  qed
  consider "unat a \<le> 160" "unat b \<le> 160" | "unat a \<le> 160" "\<not> unat b \<le> 160"
    | "\<not> unat a \<le> 160" "unat b \<le> 160" | "\<not> unat a \<le> 160" "\<not> unat b \<le> 160" by blast
  then show "a = b"
  proof cases
    case 1
    with eq show ?thesis by (simp add: decode_byte_def word_unat_eq_iff)
  next
    case 2
    with eq up[of b] show ?thesis by (simp add: decode_byte_def)
  next
    case 3
    with eq up[of a] show ?thesis by (simp add: decode_byte_def)
  next
    case 4
    then have ia: "unat a - 161 < length iso8859_16_upper" and ib: "unat b - 161 < length iso8859_16_upper"
      using unat_byte_bound[of a] unat_byte_bound[of b] by (simp_all add: upper_length)
    from eq 4 have "iso8859_16_upper ! (unat a - 161) = iso8859_16_upper ! (unat b - 161)"
      by (simp add: decode_byte_def)
    with ia ib upper_distinct have "unat a - 161 = unat b - 161"
      by (simp add: nth_eq_iff_index_eq)
    with 4 have "unat a = unat b" by simp
    then show ?thesis by (simp add: word_unat_eq_iff)
  qed
qed

lemma remove_return_decode:
  "remove_char 13 (decode bs) = decode (filter (\<lambda>b. b \<noteq> 13) bs)"
  by (induction bs) (simp_all add: remove_char_def decode_def decode_byte_return)

text \<open>
  C4, as the code has it. Decoding yields one character per byte and different characters
  for different bytes; the newline character comes from the byte 0x0A only and the
  carriage return from the byte 0x0D only. What \<open>read_from_device\<close> adds to the line buffer
  is the decoding of the received bytes without the bytes 0x0D (the buffer before the
  split is the line returned, a newline and the buffer kept), and the line it returns, or
  else the buffer it keeps, holds no newline.
\<close>

theorem decoding_transparent_except_return:
  assumes "rx d = bs # rest"
  shows "length (decode bs) = length bs
         \<and> inj decode_byte
         \<and> (decode_byte b = 10 \<longleftrightarrow> b = 10)
         \<and> (decode_byte b = 13 \<longleftrightarrow> b = 13)
         \<and> (case fst (read_from_device d) of
               None \<Rightarrow> inbuffer (snd (read_from_device d))
             | Some l \<Rightarrow> l @ 10 # inbuffer (snd (read_from_device d)))
             = inbuffer d @ decode (filter (\<lambda>b. b \<noteq> 13) bs)
         \<and> (case fst (read_from_device d) of
               None \<Rightarrow> 10 \<notin> set (inbuffer (snd (read_from_device d)))
             | Some l \<Rightarrow> 10 \<notin> set l)"
proof -
  have 1: "length (decode bs) = length bs" by (simp add: decode_def)
  let ?buf = "inbuffer d @ decode (filter (\<lambda>b. b \<noteq> 13) bs)"
  have rd: "read_from_device d =
      (case split1 10 ?buf of
         Some (cmd, rest') \<Rightarrow> (Some cmd, d\<lparr>rx := rest, inbuffer := rest'\<rparr>)
       | None \<Rightarrow> (None, d\<lparr>rx := rest, inbuffer := ?buf\<rparr>))"
  proof (cases bs)
    case Nil
    with assms show ?thesis
      by (simp add: read_from_device_def Let_def decode_def split: option.splits)
  next
    case (Cons b' bs')
    with assms show ?thesis
      by (simp add: read_from_device_def Let_def remove_return_decode split: option.splits)
  qed
  have 5: "(case fst (read_from_device d) of
               None \<Rightarrow> inbuffer (snd (read_from_device d))
             | Some l \<Rightarrow> l @ 10 # inbuffer (snd (read_from_device d))) = ?buf"
    unfolding rd by (auto split: option.splits dest: split1_Some)
  have 6: "(case fst (read_from_device d) of
               None \<Rightarrow> 10 \<notin> set (inbuffer (snd (read_from_device d)))
             | Some l \<Rightarrow> 10 \<notin> set l)"
    unfolding rd by (auto split: option.splits dest: split1_Some simp: split1_None)
  from 1 inj_decode_byte decode_byte_newline decode_byte_return 5 6 show ?thesis by blast
qed

theorem decoding_transparent_except_return_witness:
  "rx (Device_init [[0x41, 0x0D, 0x0A, 0xA4, 0x42]] :: unit device) = [0x41, 0x0D, 0x0A, 0xA4, 0x42] # []
   \<and> read_from_device (Device_init [[0x41, 0x0D, 0x0A, 0xA4, 0x42]] :: unit device)
       = (Some (s ''A''), (Device_init [])\<lparr>inbuffer := [8364, 66]\<rparr>)
   \<and> s ''A'' @ 10 # [8364, 66] = decode (filter (\<lambda>b. b \<noteq> 13) [0x41, 0x0D, 0x0A, 0xA4, 0x42])"
proof -
  have h: "rx (Device_init [[0x41, 0x0D, 0x0A, 0xA4, 0x42]] :: unit device)
             = [0x41, 0x0D, 0x0A, 0xA4, 0x42] # []"
    by (simp add: Device_init_def)
  have r: "read_from_device (Device_init [[0x41, 0x0D, 0x0A, 0xA4, 0x42]] :: unit device)
             = (Some (s ''A''), (Device_init [])\<lparr>inbuffer := [8364, 66]\<rparr>)"
    by (simp add: read_from_device_def Device_init_def Let_def decode_def decode_byte_def
          remove_char_def s_def iso8859_16_upper_def)
  have i: "inbuffer (Device_init [[0x41, 0x0D, 0x0A, 0xA4, 0x42]] :: unit device) = []"
    by (simp add: Device_init_def)
  from decoding_transparent_except_return [OF h, of 0]
  show ?thesis using h r by (simp add: i)
qed

text \<open>
  C4, as stated, fails: of the two bytes \<open>A\<close> and carriage return, only one character
  reaches the line buffer, since \<open>replace('\r', '')\<close> removes the other.
\<close>

theorem carriage_return_not_kept:
  "read_from_device (Device_init [[0x41, 0x0D]] :: unit device)
     = (None, (Device_init [])\<lparr>inbuffer := s ''A''\<rparr>)
   \<and> length (inbuffer (snd (read_from_device (Device_init [[0x41, 0x0D]] :: unit device))))
       \<noteq> length [0x41, 0x0D :: byte]"
  by (simp add: read_from_device_def Device_init_def Let_def decode_def decode_byte_def
        remove_char_def s_def)

section \<open>Fading the LEDs\<close>

text \<open>
  The spec's reading of the dimmed colour: each of the three 8-bit channels of the colour
  (red at bit 16, green at bit 8, blue at bit 0) multiplied by \<open>p\<close> and rounded down.
\<close>

definition channel :: "nat \<Rightarrow> int \<Rightarrow> int" where
  "channel k i = take_bit 8 (drop_bit k i)"

definition spec_scaled :: "real \<Rightarrow> int \<Rightarrow> int" where
  "spec_scaled p i =
     push_bit 16 \<lfloor>real_of_int (channel 16 i) * p\<rfloor>
     OR push_bit 8 \<lfloor>real_of_int (channel 8 i) * p\<rfloor>
     OR \<lfloor>real_of_int (channel 0 i) * p\<rfloor>"

lemma and_shifted_mask:
  "(i::int) AND push_bit k (mask 8) = push_bit k (take_bit 8 (drop_bit k i))"
  by (rule bit_eqI) (auto simp: bit_simps)

lemma and_ff0000: "(i::int) AND 0xff0000 = push_bit 16 (take_bit 8 (drop_bit 16 i))"
  using and_shifted_mask[of i 16] by (simp add: mask_eq_exp_minus_1 push_bit_eq_mult)

lemma and_ff00: "(i::int) AND 0xff00 = push_bit 8 (take_bit 8 (drop_bit 8 i))"
  using and_shifted_mask[of i 8] by (simp add: mask_eq_exp_minus_1 push_bit_eq_mult)

lemma and_ff: "(i::int) AND 0xff = take_bit 8 i"
  using and_shifted_mask[of i 0] by (simp add: mask_eq_exp_minus_1)

lemma channel_range: "0 \<le> channel k i \<and> channel k i < 256"
  using take_bit_int_less_exp[of 8 "drop_bit k i"] by (simp add: channel_def)

lemma scaled_channel_range:
  fixes p :: real
  assumes "0 < p" "p < 1"
  shows "0 \<le> \<lfloor>real_of_int (channel k i) * p\<rfloor> \<and> \<lfloor>real_of_int (channel k i) * p\<rfloor> < 256"
proof -
  have c: "0 \<le> real_of_int (channel k i)" "real_of_int (channel k i) < 256"
    using channel_range[of k i] by simp_all
  have "real_of_int (channel k i) * p \<le> real_of_int (channel k i) * 1"
    using c(1) assms(2) by (intro mult_left_mono) simp_all
  then have "real_of_int (channel k i) * p < 256" using c(2) by simp
  moreover have "0 \<le> real_of_int (channel k i) * p" using c(1) assms(1) by simp
  ultimately show ?thesis by (simp add: floor_less_iff)
qed

lemma floor_shifted:
  fixes p :: real
  shows "drop_bit k \<lfloor>real_of_int (push_bit k c) * p\<rfloor> = \<lfloor>real_of_int c * p\<rfloor>"
proof -
  let ?x = "real_of_int c * p"
  have e: "real_of_int (push_bit k c) * p = ?x * 2 ^ k"
    by (simp add: push_bit_eq_mult)
  have "\<lfloor>?x * 2 ^ k / real_of_int (2 ^ k)\<rfloor> = \<lfloor>?x * 2 ^ k\<rfloor> div 2 ^ k"
    by (rule floor_divide_real_eq_div) simp
  moreover have "?x * 2 ^ k / real_of_int (2 ^ k) = ?x" by simp
  ultimately have "\<lfloor>?x * 2 ^ k\<rfloor> div 2 ^ k = \<lfloor>?x\<rfloor>" by simp
  then show ?thesis unfolding e by (simp add: drop_bit_eq_div)
qed

lemma dimmed_channel:
  fixes p :: real
  assumes "0 < p" "p < 1"
  shows "int_of_float (real_of_int (push_bit k (channel k i)) * p) AND push_bit k (mask 8)
           = push_bit k \<lfloor>real_of_int (channel k i) * p\<rfloor>"
proof -
  have "0 \<le> real_of_int (push_bit k (channel k i)) * p"
    using channel_range[of k i] assms(1) by (simp add: push_bit_eq_mult)
  then have "int_of_float (real_of_int (push_bit k (channel k i)) * p)
               = \<lfloor>real_of_int (push_bit k (channel k i)) * p\<rfloor>"
    by (simp add: int_of_float_def)
  moreover have "take_bit 8 \<lfloor>real_of_int (channel k i) * p\<rfloor> = \<lfloor>real_of_int (channel k i) * p\<rfloor>"
    using scaled_channel_range[OF assms, of k i] by (simp add: take_bit_int_eq_self)
  ultimately show ?thesis
    by (simp add: and_shifted_mask floor_shifted)
qed

lemma dimmed_spec:
  fixes p :: real
  assumes "0 < p" "p < 1"
  shows "dimmed p i = spec_scaled p i"
proof -
  have m: "(0xff0000::int) = push_bit 16 (mask 8)" "(0xff00::int) = push_bit 8 (mask 8)"
    "(0xff::int) = push_bit 0 (mask 8)"
    by (simp_all add: mask_eq_exp_minus_1 push_bit_eq_mult)
  have a: "i AND 0xff0000 = push_bit 16 (channel 16 i)" "i AND 0xff00 = push_bit 8 (channel 8 i)"
    "i AND 0xff = push_bit 0 (channel 0 i)"
    by (simp_all add: and_ff0000 and_ff00 and_ff channel_def)
  show ?thesis
    unfolding dimmed_def spec_scaled_def a
    unfolding m dimmed_channel[OF assms]
    by simp
qed

lemma send_led_fields:
  "send_led pc colors d = d\<lparr>tx := tx d @ [Encoded (CommandCode_LED pc @ s '' '' @ join (s '' '') colors @ s ''\<newline>'')]\<rparr>"
  by (simp add: send_led_def send_to_device_def ser_write_def)

definition example_leds :: "unit device" where
  "example_leds = set_leds example_protocol [0xFF0000] ((Device_init [])\<lparr>num_of_leds := 1\<rparr>)"

lemma example_leds_fields:
  "led_state example_leds = Some [0xFF0000]" "led_set_time example_leds = Some 0"
  "num_of_leds example_leds = 1" "tx example_leds = [Encoded (s ''L ff0000\<newline>'')]"
  by (simp_all add: example_leds_def set_leds_def Let_def send_led_fields Device_init_def
        example_protocol_def format_06x_def zero_pad_def hex_digits.simps s_def)

lemma example_half: "format_06x (spec_scaled (1 / 2) 0xFF0000) = s ''7f0000''"
  by (simp add: spec_scaled_def channel_def format_06x_def zero_pad_def hex_digits.simps s_def
        Let_def drop_bit_eq_div take_bit_eq_mod push_bit_eq_mult)

text \<open>
  C6. With a frame stored at time \<open>t0\<close> and \<open>p = (3.0 + 0.5 - e) / 0.5\<close> for the elapsed time
  \<open>e\<close>: if \<open>p \<ge> 1\<close>, \<open>fade_leds\<close> changes nothing; if \<open>p \<le> 0\<close>, it clears the stored frame
  and sends one command of all-zero colours, and in the state it leaves every later call
  changes nothing; otherwise it sends the frame with each channel scaled by \<open>p\<close> and
  rounded down, and leaves the stored frame and its time stamp as they were.
\<close>

theorem fade_leds_cases:
  assumes "led_state d = Some state" and "led_set_time d = Some t0"
  shows "((3.0 + 0.5 - (clock d - t0)) / 0.5 \<ge> 1 \<longrightarrow> fade_leds pc d = Inr d)
       \<and> ((3.0 + 0.5 - (clock d - t0)) / 0.5 \<le> 0 \<longrightarrow>
            (\<exists>d'. fade_leds pc d = Inr d'
               \<and> led_state d' = None
               \<and> tx d' = tx d @ [Encoded (CommandCode_LED pc @ s '' ''
                            @ join (s '' '') (replicate (nat (num_of_leds d)) (s ''000000''))
                            @ s ''\<newline>'')]
               \<and> (\<forall>t. fade_leds pc (d'\<lparr>clock := t\<rparr>) = Inr (d'\<lparr>clock := t\<rparr>))))
       \<and> (0 < (3.0 + 0.5 - (clock d - t0)) / 0.5 \<and> (3.0 + 0.5 - (clock d - t0)) / 0.5 < 1 \<longrightarrow>
            (\<exists>d'. fade_leds pc d = Inr d'
               \<and> led_state d' = Some state \<and> led_set_time d' = Some t0
               \<and> tx d' = tx d @ [Encoded (CommandCode_LED pc @ s '' ''
                            @ join (s '' '')
                                (map (\<lambda>i. format_06x (spec_scaled ((3.0 + 0.5 - (clock d - t0)) / 0.5) i))
                                   state)
                            @ s ''\<newline>'')]))"
proof -
  define p where "p = (3.0 + 0.5 - (clock d - t0)) / 0.5"
  have p: "fade_factor (clock d) t0 = p" by (simp add: fade_factor_def p_def)
  have hold: "fade_leds pc d = Inr d" if "p \<ge> 1"
    using assms that by (simp add: fade_leds_def p Let_def)
  have dark: "\<exists>d'. fade_leds pc d = Inr d'
               \<and> led_state d' = None
               \<and> tx d' = tx d @ [Encoded (CommandCode_LED pc @ s '' ''
                            @ join (s '' '') (replicate (nat (num_of_leds d)) (s ''000000''))
                            @ s ''\<newline>'')]
               \<and> (\<forall>t. fade_leds pc (d'\<lparr>clock := t\<rparr>) = Inr (d'\<lparr>clock := t\<rparr>))" if le: "p \<le> 0"
  proof -
    from le have "\<not> p \<ge> 1" by simp
    with le assms show ?thesis
      by (simp add: fade_leds_def p Let_def send_led_fields)
  qed
  have fade: "\<exists>d'. fade_leds pc d = Inr d'
               \<and> led_state d' = Some state \<and> led_set_time d' = Some t0
               \<and> tx d' = tx d @ [Encoded (CommandCode_LED pc @ s '' ''
                            @ join (s '' '') (map (\<lambda>i. format_06x (spec_scaled p i)) state)
                            @ s ''\<newline>'')]" if r: "0 < p \<and> p < 1"
  proof -
    from r have n: "\<not> p \<ge> 1" "\<not> p \<le> 0" by simp_all
    have "map (dimmed p) state = map (spec_scaled p) state"
      using dimmed_spec[of p] r by simp
    then have m: "map format_06x (map (dimmed p) state) = map (\<lambda>i. format_06x (spec_scaled p i)) state"
      by (simp add: comp_def)
    have "fade_leds pc d = Inr (send_led pc (map format_06x (map (dimmed p) state)) d)"
      using assms n by (simp add: fade_leds_def p Let_def del: map_map)
    then show ?thesis
      using assms by (simp add: m send_led_fields del: map_map)
  qed
  from hold dark fade show ?thesis unfolding p_def by blast
qed

theorem fade_leds_cases_witness:
  "led_state example_leds = Some [0xFF0000] \<and> led_set_time example_leds = Some 0
   \<and> fade_leds example_protocol (example_leds\<lparr>clock := 1\<rparr>) = Inr (example_leds\<lparr>clock := 1\<rparr>)
   \<and> map_sum id tx (fade_leds example_protocol (example_leds\<lparr>clock := 3.25\<rparr>))
       = Inr [Encoded (s ''L ff0000\<newline>''), Encoded (s ''L 7f0000\<newline>'')]
   \<and> map_sum id led_state (fade_leds example_protocol (example_leds\<lparr>clock := 3.25\<rparr>))
       = Inr (Some [0xFF0000])
   \<and> map_sum id tx (fade_leds example_protocol (example_leds\<lparr>clock := 3.6\<rparr>))
       = Inr [Encoded (s ''L ff0000\<newline>''), Encoded (s ''L 000000\<newline>'')]
   \<and> map_sum id led_state (fade_leds example_protocol (example_leds\<lparr>clock := 3.6\<rparr>))
       = Inr None"
proof -
  have h: "led_state (example_leds\<lparr>clock := t\<rparr>) = Some [0xFF0000]"
    "led_set_time (example_leds\<lparr>clock := t\<rparr>) = Some 0" for t
    by (simp_all add: example_leds_fields)
  have a: "fade_leds example_protocol (example_leds\<lparr>clock := 1\<rparr>) = Inr (example_leds\<lparr>clock := 1\<rparr>)"
    using fade_leds_cases [OF h, of 1 example_protocol] by simp
  have b: "map_sum id tx (fade_leds example_protocol (example_leds\<lparr>clock := 3.25\<rparr>))
             = Inr [Encoded (s ''L ff0000\<newline>''), Encoded (s ''L 7f0000\<newline>'')]
           \<and> map_sum id led_state (fade_leds example_protocol (example_leds\<lparr>clock := 3.25\<rparr>))
             = Inr (Some [0xFF0000])"
    using fade_leds_cases [OF h, of "3.25" example_protocol]
    by (auto simp: example_leds_fields example_half example_protocol_def s_def)
  have c: "map_sum id tx (fade_leds example_protocol (example_leds\<lparr>clock := 3.6\<rparr>))
             = Inr [Encoded (s ''L ff0000\<newline>''), Encoded (s ''L 000000\<newline>'')]
           \<and> map_sum id led_state (fade_leds example_protocol (example_leds\<lparr>clock := 3.6\<rparr>))
             = Inr None"
    using fade_leds_cases [OF h, of "3.6" example_protocol]
    by (auto simp: example_leds_fields example_protocol_def s_def)
  from a b c show ?thesis by (simp add: example_leds_fields)
qed

section \<open>Dispatch of key events\<close>

text \<open>The number that a string of decimal digits denotes.\<close>

definition decimal_value :: "pystr \<Rightarrow> nat" where
  "decimal_value ds = foldl (\<lambda>a c. 10 * a + (c - 48)) 0 ds"

lemma digits_value_foldl:
  "list_all isdecimal_char ds \<Longrightarrow>
   digits_value ds acc = Some (foldl (\<lambda>a c. 10 * a + (c - 48)) acc ds)"
  by (induction ds acc rule: digits_value.induct) simp_all

lemma unsigned_value_decimal:
  "isdecimal ds \<Longrightarrow> unsigned_value ds = Some (decimal_value ds)"
  by (cases ds) (simp_all add: isdecimal_def unsigned_value_def decimal_value_def digits_value_foldl)

lemma decimal_not_space: "isdecimal_char c \<Longrightarrow> \<not> int_space_char c"
  by (auto simp: isdecimal_char_def int_space_char_def)

lemma strip_unchanged:
  assumes "str \<noteq> []" "\<not> int_space_char (hd str)" "\<not> int_space_char (last str)"
  shows "strip str = str"
proof -
  have "dropWhile int_space_char str = str" using assms(1,2) by (cases str) simp_all
  moreover have "dropWhile int_space_char (rev str) = rev str"
    using assms(1,3) by (cases "rev str") (simp_all add: hd_rev[symmetric])
  ultimately show ?thesis by (simp add: strip_def)
qed

lemma isdecimal_ends:
  assumes "isdecimal ds"
  shows "ds \<noteq> []" "isdecimal_char (hd ds)" "isdecimal_char (last ds)"
  using assms by (auto simp: isdecimal_def list_all_iff)

lemma decimal_digit_count: "isdecimal ds \<Longrightarrow> length (filter isdecimal_char ds) = length ds"
  by (simp add: isdecimal_def list_all_iff)

lemma py_int_decimal:
  "isdecimal ds \<Longrightarrow> length ds \<le> int_max_str_digits \<Longrightarrow> py_int ds = Inr (int (decimal_value ds))"
proof -
  assume d: "isdecimal ds" and n: "length ds \<le> int_max_str_digits"
  then have st: "strip ds = ds"
    using isdecimal_ends[OF d] by (intro strip_unchanged) (simp_all add: decimal_not_space)
  obtain c cs where ds: "ds = c # cs" using isdecimal_ends(1)[OF d] by (cases ds) auto
  have c: "48 \<le> c" "c \<le> 57" using isdecimal_ends(2)[OF d] ds by (simp_all add: isdecimal_char_def)
  have "strip (c # cs) = c # cs" using st ds by simp
  then show ?thesis
    using unsigned_value_decimal[OF d] c decimal_digit_count[OF d] n by (simp add: py_int_def ds)
qed

lemma py_int_minus:
  "isdecimal ds \<Longrightarrow> length ds \<le> int_max_str_digits \<Longrightarrow>
   py_int (45 # ds) = Inr (- int (decimal_value ds))"
proof -
  assume d: "isdecimal ds" and n: "length ds \<le> int_max_str_digits"
  have "\<not> int_space_char 45" by (simp add: int_space_char_def)
  moreover have "\<not> int_space_char (last ds)"
    using isdecimal_ends[OF d] by (simp add: decimal_not_space)
  ultimately have "strip (45 # ds) = 45 # ds"
    using isdecimal_ends(1)[OF d] by (intro strip_unchanged) simp_all
  then show ?thesis
    using unsigned_value_decimal[OF d] decimal_digit_count[OF d] n
    by (simp add: py_int_def isdecimal_char_def)
qed

lemma py_int_too_long:
  assumes "isdecimal ds" and "int_max_str_digits < length ds"
  shows "py_int ds = Inl ValueError" and "py_int (45 # ds) = Inl ValueError"
  using decimal_digit_count[OF assms(1)] assms(2) by (simp_all add: py_int_def)

lemma not_decimal_minus: "\<not> isdecimal (45 # ds)"
  by (simp add: isdecimal_def isdecimal_char_def)

text \<open>
  A table of handlers with one for the jog code \<open>R\<close> and one for the key \<open>2p\<close>, and a
  device that has them registered.
\<close>

definition example_callbacks :: "pystr \<rightharpoonup> nat" where
  "example_callbacks = [s ''R'' \<mapsto> 7, s ''2p'' \<mapsto> 9]"

definition example_jog_device :: "byte list list \<Rightarrow> nat device" where
  "example_jog_device chunks = (Device_init chunks)\<lparr>callbacks := example_callbacks\<rparr>"

text \<open>
  C3, as the code has it. For a line that is the jog code followed by decimal digits, or
  by a minus sign and decimal digits, and has no more digits than \<open>int\<close> accepts (4300),
  \<open>poll\<close> calls the handler registered for the jog code, if there is one, with the number
  the digits denote (negated after a minus sign); with more digits, the conversion of the
  number raises \<open>ValueError\<close> if a handler is registered. For a line that is the jog code
  followed by a non-empty remainder of any other form, it looks the whole line up among
  the registered codes and calls that handler, or none if the line is not registered.
\<close>

theorem jog_lines_dispatched:
  assumes "KeyCode_JOG pc = [j]"
  shows "(isdecimal ds \<and> length ds \<le> int_max_str_digits \<longrightarrow>
            dispatch pc cbs (j # ds)
              = Inr (map_option (\<lambda>h. JogCall h (int (decimal_value ds))) (cbs [j]))
          \<and> dispatch pc cbs (j # 45 # ds)
              = Inr (map_option (\<lambda>h. JogCall h (- int (decimal_value ds))) (cbs [j])))
       \<and> (isdecimal ds \<and> int_max_str_digits < length ds \<longrightarrow>
            dispatch pc cbs (j # ds)
              = (case cbs [j] of None \<Rightarrow> Inr None | Some h \<Rightarrow> Inl ValueError)
          \<and> dispatch pc cbs (j # 45 # ds)
              = (case cbs [j] of None \<Rightarrow> Inr None | Some h \<Rightarrow> Inl ValueError))
       \<and> (rest \<noteq> [] \<and> \<not> isdecimal rest \<and> \<not> (hd rest = 45 \<and> isdecimal (tl rest)) \<longrightarrow>
            dispatch pc cbs (j # rest) = Inr (map_option KeyCall (cbs (j # rest))))
       \<and> (read_from_device d = (Some line, d') \<longrightarrow>
            poll pc d = (dispatch pc (callbacks d) line, d'))"
proof -
  have j1: "is_jog_line pc (j # ds) = Inr True" if "isdecimal ds"
    using that assms by (simp add: is_jog_line_def)
  have j2: "is_jog_line pc (j # 45 # ds) = Inr True" if "isdecimal ds"
    using that assms by (simp add: is_jog_line_def not_decimal_minus)
  have a: "dispatch pc cbs (j # ds)
              = Inr (map_option (\<lambda>h. JogCall h (int (decimal_value ds))) (cbs [j]))
           \<and> dispatch pc cbs (j # 45 # ds)
              = Inr (map_option (\<lambda>h. JogCall h (- int (decimal_value ds))) (cbs [j]))"
    if h: "isdecimal ds \<and> length ds \<le> int_max_str_digits"
  proof -
    from h have dec: "isdecimal ds" and n: "length ds \<le> int_max_str_digits" by simp_all
    show ?thesis
      using j1[OF dec] j2[OF dec] py_int_decimal[OF dec n] py_int_minus[OF dec n] assms
      by (simp add: dispatch_def split: option.splits)
  qed
  have b: "dispatch pc cbs (j # ds)
              = (case cbs [j] of None \<Rightarrow> Inr None | Some h \<Rightarrow> Inl ValueError)
           \<and> dispatch pc cbs (j # 45 # ds)
              = (case cbs [j] of None \<Rightarrow> Inr None | Some h \<Rightarrow> Inl ValueError)"
    if h: "isdecimal ds \<and> int_max_str_digits < length ds"
  proof -
    from h have dec: "isdecimal ds" and n: "int_max_str_digits < length ds" by simp_all
    show ?thesis
      using j1[OF dec] j2[OF dec] py_int_too_long[OF dec n] assms
      by (simp add: dispatch_def split: option.splits)
  qed
  have c: "dispatch pc cbs (j # rest) = Inr (map_option KeyCall (cbs (j # rest)))"
    if h: "rest \<noteq> [] \<and> \<not> isdecimal rest \<and> \<not> (hd rest = 45 \<and> isdecimal (tl rest))"
  proof -
    obtain r rs where r: "rest = r # rs" using h by (cases rest) auto
    have "is_jog_line pc (j # rest) = Inr False"
      using h assms r by (auto simp: is_jog_line_def)
    then show ?thesis by (simp add: dispatch_def split: option.splits)
  qed
  have e: "poll pc d = (dispatch pc (callbacks d) line, d')" if r: "read_from_device d = (Some line, d')"
  proof -
    from r have "callbacks d' = callbacks d"
      by (auto simp: read_from_device_def Let_def split: option.splits if_splits)
    with r show ?thesis by (simp add: poll_def)
  qed
  from a b c e show ?thesis by blast
qed

theorem jog_lines_dispatched_witness:
  "KeyCode_JOG example_protocol = [82] \<and> isdecimal (s ''12'')
   \<and> length (s ''12'') \<le> int_max_str_digits
   \<and> dispatch example_protocol example_callbacks (s ''R12'') = Inr (Some (JogCall 7 12))
   \<and> dispatch example_protocol example_callbacks (s ''R-12'') = Inr (Some (JogCall 7 (- 12)))
   \<and> isdecimal (replicate 4301 49) \<and> int_max_str_digits < length (replicate 4301 (49::nat))
   \<and> dispatch example_protocol example_callbacks (82 # replicate 4301 49) = Inl ValueError
   \<and> s ''+5'' \<noteq> [] \<and> \<not> isdecimal (s ''+5'')
   \<and> \<not> (hd (s ''+5'') = 45 \<and> isdecimal (tl (s ''+5'')))
   \<and> dispatch example_protocol example_callbacks (s ''R+5'') = Inr None
   \<and> read_from_device (example_jog_device [ascii ''R12\<newline>''])
       = (Some (s ''R12''), example_jog_device [])
   \<and> poll example_protocol (example_jog_device [ascii ''R12\<newline>''])
       = (Inr (Some (JogCall 7 12)), example_jog_device [])"
proof -
  have j: "KeyCode_JOG example_protocol = [82]"
    by (simp add: example_protocol_def s_def)
  have d: "isdecimal (s ''12'')"
    by (simp add: isdecimal_def isdecimal_char_def s_def)
  have n: "length (s ''12'') \<le> int_max_str_digits"
    by (simp add: s_def int_max_str_digits_def)
  have l: "isdecimal (replicate 4301 49)" "int_max_str_digits < length (replicate 4301 (49::nat))"
    by (simp_all add: isdecimal_def isdecimal_char_def list_all_iff int_max_str_digits_def)
  have m: "s ''+5'' \<noteq> [] \<and> \<not> isdecimal (s ''+5'')
             \<and> \<not> (hd (s ''+5'') = 45 \<and> isdecimal (tl (s ''+5'')))"
    by (simp add: isdecimal_def isdecimal_char_def s_def)
  have r: "read_from_device (example_jog_device [ascii ''R12\<newline>''])
             = (Some (s ''R12''), example_jog_device [])"
    by (simp add: read_from_device_def Device_init_def example_jog_device_def ascii_def
          decode_def decode_byte_def remove_char_def s_def Let_def)
  have v: "decimal_value (s ''12'') = 12"
    by (simp add: decimal_value_def s_def)
  have c: "example_callbacks [82] = Some 7" "example_callbacks (82 # s ''+5'') = None"
    "callbacks (example_jog_device [ascii ''R12\<newline>'']) = example_callbacks"
    by (simp_all add: example_callbacks_def s_def example_jog_device_def)
  have e: "s ''R12'' = 82 # s ''12''" "s ''R-12'' = 82 # 45 # s ''12''" "s ''R+5'' = 82 # s ''+5''"
    by (simp_all add: s_def)
  note t = jog_lines_dispatched [OF j, of "s ''12''" example_callbacks "s ''+5''"
      "example_jog_device [ascii ''R12\<newline>'']" "s ''R12''" "example_jog_device []"]
  note u = jog_lines_dispatched [OF j, of "replicate 4301 49" example_callbacks "s ''+5''"
      "example_jog_device [ascii ''R12\<newline>'']" "s ''R12''" "example_jog_device []"]
  have 1: "dispatch example_protocol example_callbacks (s ''R12'') = Inr (Some (JogCall 7 12))
     \<and> dispatch example_protocol example_callbacks (s ''R-12'') = Inr (Some (JogCall 7 (- 12)))
     \<and> dispatch example_protocol example_callbacks (s ''R+5'') = Inr None
     \<and> poll example_protocol (example_jog_device [ascii ''R12\<newline>''])
         = (Inr (Some (JogCall 7 12)), example_jog_device [])"
    using t j d n m r by (simp add: v c e)
  have 2: "dispatch example_protocol example_callbacks (82 # replicate 4301 49) = Inl ValueError"
    using u l c(1) by simp
  from 1 2 j d n l m r show ?thesis by blast
qed

text \<open>
  C3, as stated, fails in two ways. \<open>+5\<close> is a signed decimal integer (\<open>int\<close> reads it as 5),
  but the line \<open>R+5\<close> is not given to the jog handler: the code accepts a minus sign only.
  And the line \<open>R\<close>, whose remainder is empty and so not a number, does not fall through to
  the lookup of the whole line: \<open>input[1]\<close> raises \<open>IndexError\<close>.
\<close>

theorem plus_sign_and_bare_jog_code:
  "py_int (s ''+5'') = Inr 5
   \<and> callbacks (example_jog_device []) (s ''R'') = Some 7
   \<and> fst (poll example_protocol (example_jog_device [ascii ''R+5\<newline>''])) = Inr None
   \<and> fst (poll example_protocol (example_jog_device [ascii ''R\<newline>''])) = Inl IndexError"
  by (simp add: poll_def read_from_device_def Device_init_def example_jog_device_def
        example_callbacks_def ascii_def
        decode_def decode_byte_def remove_char_def s_def Let_def dispatch_def is_jog_line_def
        example_protocol_def isdecimal_def isdecimal_char_def py_int_def int_max_str_digits_def strip_def
        int_space_char_def unsigned_value_def)

section \<open>What the waiting loops leave unchanged\<close>

text \<open>
  The complete lines of a text: its pieces up to each newline; what follows the last
  newline is not a line yet.
\<close>

fun lines_from :: "pystr \<Rightarrow> pystr \<Rightarrow> pystr list" where
  "lines_from cur [] = []"
| "lines_from cur (c # cs) = (if c = 10 then rev cur # lines_from [] cs else lines_from (c # cur) cs)"

definition complete_lines :: "pystr \<Rightarrow> pystr list" where
  "complete_lines str = lines_from [] str"

lemma lines_from_append:
  "10 \<notin> set l \<Longrightarrow> lines_from cur (l @ 10 # rest) = (rev cur @ l) # lines_from [] rest"
  by (induction l arbitrary: cur) simp_all

lemma complete_lines_Cons:
  "10 \<notin> set l \<Longrightarrow> complete_lines (l @ 10 # rest) = l # complete_lines rest"
  by (simp add: complete_lines_def lines_from_append)

text \<open>
  Two states of the device that differ at most in the port's input, the line buffer, the
  clock and the naps to come.
\<close>

definition same_device :: "'h device \<Rightarrow> 'h device \<Rightarrow> bool" where
  "same_device d d' =
     (d'\<lparr>rx := [], inbuffer := [], clock := 0, naps := []\<rparr>
        = d\<lparr>rx := [], inbuffer := [], clock := 0, naps := []\<rparr>)"

lemma same_device_refl [simp]: "same_device d d"
  by (simp add: same_device_def)

lemma same_device_trans: "same_device a b \<Longrightarrow> same_device b c \<Longrightarrow> same_device a c"
  by (simp add: same_device_def)

lemma same_device_sleep [simp]: "same_device d (sleep t d)"
  by (simp add: same_device_def sleep_def split: list.splits)

lemma same_device_read: "read_from_device d = (l, d') \<Longrightarrow> same_device d d'"
  by (auto simp: read_from_device_def same_device_def Let_def split: option.splits if_splits)

lemma same_device_fields:
  assumes "same_device d d'"
  shows "tx d' = tx d" "image_buffer d' = image_buffer d" "callbacks d' = callbacks d"
    "num_of_leds d' = num_of_leds d" "display_width d' = display_width d"
    "display_height d' = display_height d" "testmode d' = testmode d"
    "led_state d' = led_state d" "led_set_time d' = led_set_time d"
    "rotation_circle_steps d' = rotation_circle_steps d"
proof -
  let ?n = "\<lambda>x. x\<lparr>rx := [], inbuffer := [], clock := 0, naps := []\<rparr>"
  have e: "?n d' = ?n d" using assms by (simp add: same_device_def)
  have "tx (?n d') = tx (?n d)" using e by simp
  then show "tx d' = tx d" by simp
  have "image_buffer (?n d') = image_buffer (?n d)" using e by simp
  then show "image_buffer d' = image_buffer d" by simp
  have "callbacks (?n d') = callbacks (?n d)" using e by simp
  then show "callbacks d' = callbacks d" by simp
  have "num_of_leds (?n d') = num_of_leds (?n d)" using e by simp
  then show "num_of_leds d' = num_of_leds d" by simp
  have "display_width (?n d') = display_width (?n d)" using e by simp
  then show "display_width d' = display_width d" by simp
  have "display_height (?n d') = display_height (?n d)" using e by simp
  then show "display_height d' = display_height d" by simp
  have "testmode (?n d') = testmode (?n d)" using e by simp
  then show "testmode d' = testmode d" by simp
  have "led_state (?n d') = led_state (?n d)" using e by simp
  then show "led_state d' = led_state d" by simp
  have "led_set_time (?n d') = led_set_time (?n d)" using e by simp
  then show "led_set_time d' = led_set_time d" by simp
  have "rotation_circle_steps (?n d') = rotation_circle_steps (?n d)" using e by simp
  then show "rotation_circle_steps d' = rotation_circle_steps d" by simp
qed

lemma pending_sleep [simp]: "pending (sleep t d) = pending d"
  by (simp add: pending_def sleep_def split: list.splits)

lemma clock_sleep: "0 \<le> t \<Longrightarrow> clock d \<le> clock (sleep t d)"
  by (simp add: sleep_def split: list.splits)

lemma lines_read:
  assumes "read_from_device d = (line, d')"
  shows "complete_lines (pending d) = (case line of None \<Rightarrow> [] | Some l \<Rightarrow> [l]) @ complete_lines (pending d')"
proof (cases line)
  case None
  with assms read_None[of d d'] show ?thesis by simp
next
  case (Some l)
  with assms read_Some[of d l d'] show ?thesis by (simp add: complete_lines_Cons)
qed

lemma await_line_props:
  "await_line expected timeout start line d = (b, d') \<Longrightarrow>
     same_device d d'
     \<and> set (complete_lines (pending d')) \<subseteq> set (complete_lines (pending d))
     \<and> clock d \<le> clock d'
     \<and> (\<not> b \<longrightarrow> timeout < clock d' - start)
     \<and> (b \<longrightarrow> line = Some expected \<or> expected \<in> set (complete_lines (pending d)))"
proof (induction expected timeout start line d rule: await_line.induct)
  case (1 expected timeout start line d)
  show ?case
  proof (cases "line = Some expected")
    case True
    with "1.prems" show ?thesis by (subst (asm) await_line.simps) auto
  next
    case ne: False
    show ?thesis
    proof (cases "clock d - start > timeout")
      case True
      with ne "1.prems" show ?thesis by (subst (asm) await_line.simps) auto
    next
      case nt: False
      show ?thesis
      proof (cases "line = None")
        case True
        obtain line' d1 where r: "read_from_device (sleep 0.1 d) = (line', d1)"
          by (cases "read_from_device (sleep 0.1 d)")
        from "1.prems" ne nt True r
        have a: "await_line expected timeout start line' d1 = (b, d')"
          by (subst (asm) await_line.simps) simp
        note ih = "1.IH"(1)[OF ne nt True r[symmetric] a]
        have sd: "same_device d d1"
          using same_device_trans[OF same_device_sleep same_device_read[OF r]] .
        have cl: "clock d \<le> clock d1"
          using r read_None[of "sleep 0.1 d" d1] read_Some[of "sleep 0.1 d" _ d1]
            clock_sleep[of "1 / 10" d]
          by (cases line') simp_all
        from ih sd cl lines_read[OF r] show ?thesis
          by (auto intro: same_device_trans split: option.splits)
      next
        case False
        obtain line' d1 where r: "read_from_device d = (line', d1)"
          by (cases "read_from_device d")
        from "1.prems" ne nt False r
        have a: "await_line expected timeout start line' d1 = (b, d')"
          by (subst (asm) await_line.simps) simp
        note ih = "1.IH"(2)[OF ne nt False r[symmetric] a]
        have sd: "same_device d d1" using same_device_read[OF r] .
        have cl: "clock d \<le> clock d1"
          using r read_None[of d d1] read_Some[of d _ d1]
          by (cases line') simp_all
        from ih sd cl lines_read[OF r] show ?thesis
          by (auto intro: same_device_trans split: option.splits)
      qed
    qed
  qed
qed

lemma read_first:
  assumes "rx d = bs # later" and "inbuffer d @ remove_char 13 (decode bs) = l @ 10 # rest"
      and "10 \<notin> set l"
  shows "read_from_device d = (Some l, d\<lparr>rx := later, inbuffer := rest\<rparr>)"
proof -
  have "split1 10 (inbuffer d @ remove_char 13 (decode bs)) = Some (l, rest)"
    using assms(2,3) by (simp add: split1_append)
  moreover have "bs = [] \<Longrightarrow> split1 10 (inbuffer d) = Some (l, rest)"
    using assms(2,3) split1_append[of 10 l rest] by (simp add: remove_char_def decode_def)
  ultimately show ?thesis
    using assms(1) by (cases bs) (simp_all add: read_from_device_def Let_def)
qed

lemma read_silent:
  assumes "rx d = []" and "10 \<notin> set (inbuffer d)"
  shows "read_from_device d = (None, d)"
  using assms by (simp add: read_from_device_def Let_def split1_None[symmetric] split: option.splits)

lemma await_line_found: "await_line expected timeout start (Some expected) d = (True, d)"
  by (simp add: await_line.simps)

lemma await_line_absent:
  assumes "expected \<notin> set (complete_lines (pending d))" and "line \<noteq> Some expected"
  shows "fst (await_line expected timeout start line d) = False"
proof -
  obtain b d' where a: "await_line expected timeout start line d = (b, d')"
    by (cases "await_line expected timeout start line d")
  from await_line_props[OF a] assms have "\<not> b" by blast
  with a show ?thesis by simp
qed

section \<open>Refreshing the display\<close>

text \<open>The two commands of \<open>update_display\<close>.\<close>

definition refresh_command :: "protocol \<Rightarrow> bool \<Rightarrow> pystr" where
  "refresh_command pc full_refresh =
     CommandCode_REFRESH pc @ s '' ''
     @ (if full_refresh then RefreshTypeCode_FULL pc else RefreshTypeCode_PARTIAL pc)"

definition refresh_off_command :: "protocol \<Rightarrow> pystr" where
  "refresh_off_command pc = CommandCode_REFRESH pc @ s '' '' @ RefreshTypeCode_OFF pc"

lemma update_display_unfold:
  assumes "read_from_device (send_to_device (refresh_command pc full) d) = (line, d2)"
      and "await_line (s ''ok'') timeout (clock d) line d2 = (ok1, d3)"
      and "read_from_device (send_to_device (refresh_off_command pc) (resend_image_data pc d3))
             = (line2, d6)"
      and "await_line (s ''ok'') timeout (clock d3) line2 d6 = (ok2, d7)"
  shows "update_display pc full timeout buf d =
           (if \<not> ok1 then (Returns False, d3)
            else if buf then (if ok2 then ReturnsNone else Returns False, d7)
            else (ReturnsNone, d3))"
proof -
  have c: "clock (send_to_device (refresh_off_command pc) (resend_image_data pc d3)) = clock d3"
    by (simp add: send_to_device_def ser_write_def resend_image_data_eq)
  show ?thesis
    using assms
    by (simp add: update_display_def Let_def c refresh_command_def[symmetric]
          refresh_off_command_def[symmetric])
qed

lemma update_display_states:
  assumes "read_from_device (send_to_device (refresh_command pc full) d) = (line, d2)"
      and "await_line (s ''ok'') timeout (clock d) line d2 = (ok1, d3)"
      and "read_from_device (send_to_device (refresh_off_command pc) (resend_image_data pc d3))
             = (line2, d6)"
      and "await_line (s ''ok'') timeout (clock d3) line2 d6 = (ok2, d7)"
  shows "tx d3 = tx d @ [Encoded (refresh_command pc full @ s ''\<newline>'')]"
    and "image_buffer d3 = image_buffer d"
    and "tx d7 = tx d @ [Encoded (refresh_command pc full @ s ''\<newline>'')]
                 @ concat (map (spec_region_output pc) (image_buffer d))
                 @ [Encoded (refresh_off_command pc @ s ''\<newline>'')]"
    and "image_buffer d7 = []"
proof -
  have a: "same_device (send_to_device (refresh_command pc full) d) d3"
    using same_device_trans[OF same_device_read[OF assms(1)]] await_line_props[OF assms(2)] by blast
  show t3: "tx d3 = tx d @ [Encoded (refresh_command pc full @ s ''\<newline>'')]"
    using same_device_fields(1)[OF a] by (simp add: send_to_device_def ser_write_def)
  show i3: "image_buffer d3 = image_buffer d"
    using same_device_fields(2)[OF a] by (simp add: send_to_device_def ser_write_def)
  have b: "same_device (send_to_device (refresh_off_command pc) (resend_image_data pc d3)) d7"
    using same_device_trans[OF same_device_read[OF assms(3)]] await_line_props[OF assms(4)] by blast
  show "tx d7 = tx d @ [Encoded (refresh_command pc full @ s ''\<newline>'')]
                 @ concat (map (spec_region_output pc) (image_buffer d))
                 @ [Encoded (refresh_off_command pc @ s ''\<newline>'')]"
    using same_device_fields(1)[OF b] t3 i3
    by (simp add: send_to_device_def ser_write_def resend_image_data_eq)
  show "image_buffer d7 = []"
    using same_device_fields(2)[OF b]
    by (simp add: send_to_device_def ser_write_def resend_image_data_eq)
qed

lemma await_line_times_out:
  assumes "await_line expected timeout start line d = (False, d')"
  shows "timeout < clock d' - start"
  using await_line_props[OF assms] by simp

text \<open>A device with one image region in its buffer.\<close>

definition example_display :: "byte list list \<Rightarrow> unit device" where
  "example_display chunks =
     (Device_init chunks)\<lparr>image_buffer := [\<lparr>part_x = 7, part_y = 0, part_image = example_image\<rparr>]\<rparr>"

lemma example_display_fields:
  "rx (example_display chunks) = chunks" "inbuffer (example_display chunks) = []"
  "tx (example_display chunks) = []" "clock (example_display chunks) = 0"
  "image_buffer (example_display chunks) = [\<lparr>part_x = 7, part_y = 0, part_image = example_image\<rparr>]"
  by (simp_all add: example_display_def Device_init_def)

lemma ok_bytes: "remove_char 13 (decode (ascii ''ok\<newline>'')) = s ''ok'' @ 10 # []"
  by (simp add: remove_char_def decode_def decode_byte_def ascii_def s_def)

lemma send_to_device_fields [simp]:
  "rx (send_to_device c d) = rx d" "inbuffer (send_to_device c d) = inbuffer d"
  "clock (send_to_device c d) = clock d" "image_buffer (send_to_device c d) = image_buffer d"
  "tx (send_to_device c d) = tx d @ [Encoded (c @ s ''\<newline>'')]"
  by (simp_all add: send_to_device_def ser_write_def)

lemma resend_image_data_fields [simp]:
  "rx (resend_image_data pc d) = rx d" "inbuffer (resend_image_data pc d) = inbuffer d"
  "clock (resend_image_data pc d) = clock d"
  by (simp_all add: resend_image_data_eq)

lemma example_refresh_commands:
  "refresh_command example_protocol True = s ''R f''"
  "refresh_off_command example_protocol = s ''R o''"
  by (simp_all add: refresh_command_def refresh_off_command_def example_protocol_def s_def)

lemma example_region_output:
  "spec_region_output example_protocol \<lparr>part_x = 7, part_y = 0, part_image = example_image\<rparr>
     = [Encoded (s ''D 7 0 50 40\<newline>''),
        Raw (replicate 100 0xFF), Raw (replicate 100 0xFF), Raw (replicate 50 0xFF)]"
proof -
  have r: "rotated_bytes example_image = replicate 250 0xFF"
    by (simp add: example_image_def)
  show ?thesis
    by (simp add: spec_region_output_def example_display_command CHUNK_SIZE_def r example_chunks)
       (simp add: s_def)
qed

text \<open>
  C1, as the code has it. \<open>update_display\<close> with \<open>buffer_data\<close> set sends the refresh command
  and waits for \<open>ok\<close>. If the wait gives up, it returns \<open>False\<close>: nothing else was sent and
  the image buffer is as before. Otherwise it resends the buffered regions in the order of
  the buffer, sends the refresh-off command and waits for a second \<open>ok\<close> with the same
  timeout, counted from the second command; it returns \<open>False\<close> if that wait gives up. In
  both cases after the first \<open>ok\<close> the image buffer is empty: \<open>resend_image_data\<close> has
  cleared it before the second wait began.
\<close>

theorem update_display_resends_after_ok:
  assumes "read_from_device (send_to_device (refresh_command pc full) d) = (line, d2)"
      and "await_line (s ''ok'') timeout (clock d) line d2 = (ok1, d3)"
      and "read_from_device (send_to_device (refresh_off_command pc) (resend_image_data pc d3))
             = (line2, d6)"
      and "await_line (s ''ok'') timeout (clock d3) line2 d6 = (ok2, d7)"
  shows "(\<not> ok1 \<longrightarrow>
            update_display pc full timeout True d = (Returns False, d3)
          \<and> tx d3 = tx d @ [Encoded (refresh_command pc full @ s ''\<newline>'')]
          \<and> image_buffer d3 = image_buffer d)
       \<and> (ok1 \<longrightarrow>
            update_display pc full timeout True d = (if ok2 then ReturnsNone else Returns False, d7)
          \<and> tx d7 = tx d @ [Encoded (refresh_command pc full @ s ''\<newline>'')]
                     @ concat (map (spec_region_output pc) (image_buffer d))
                     @ [Encoded (refresh_off_command pc @ s ''\<newline>'')]
          \<and> image_buffer d7 = [])"
  using update_display_unfold[OF assms, of True] update_display_states[OF assms]
  by simp

theorem update_display_resends_after_ok_witness:
  "fst (update_display example_protocol True 5 True
          (example_display [ascii ''ok\<newline>'', ascii ''ok\<newline>''])) = ReturnsNone
   \<and> tx (snd (update_display example_protocol True 5 True
                 (example_display [ascii ''ok\<newline>'', ascii ''ok\<newline>''])))
       = [Encoded (s ''R f\<newline>''), Encoded (s ''D 7 0 50 40\<newline>''),
          Raw (replicate 100 0xFF), Raw (replicate 100 0xFF), Raw (replicate 50 0xFF),
          Encoded (s ''R o\<newline>'')]
   \<and> image_buffer (snd (update_display example_protocol True 5 True
                 (example_display [ascii ''ok\<newline>'', ascii ''ok\<newline>'']))) = []
   \<and> fst (update_display example_protocol True 5 True (example_display [])) = Returns False
   \<and> tx (snd (update_display example_protocol True 5 True (example_display [])))
       = [Encoded (s ''R f\<newline>'')]
   \<and> image_buffer (snd (update_display example_protocol True 5 True (example_display [])))
       = [\<lparr>part_x = 7, part_y = 0, part_image = example_image\<rparr>]"
proof -
  let ?ok = "ascii ''ok\<newline>''"
  let ?d = "example_display [?ok, ?ok]"
  let ?d1 = "send_to_device (refresh_command example_protocol True) ?d"
  let ?d2 = "?d1\<lparr>rx := [?ok], inbuffer := []\<rparr>"
  let ?d5 = "send_to_device (refresh_off_command example_protocol) (resend_image_data example_protocol ?d2)"
  let ?d6 = "?d5\<lparr>rx := [], inbuffer := []\<rparr>"
  have r1: "read_from_device ?d1 = (Some (s ''ok''), ?d2)"
    by (rule read_first[where bs = ?ok])
       (simp_all add: example_display_fields ok_bytes, simp add: s_def)
  have a1: "await_line (s ''ok'') 5 (clock ?d) (Some (s ''ok'')) ?d2 = (True, ?d2)"
    by (rule await_line_found)
  have r2: "read_from_device ?d5 = (Some (s ''ok''), ?d6)"
    by (rule read_first[where bs = ?ok])
       (simp_all add: example_display_fields ok_bytes, simp add: s_def)
  have a2: "await_line (s ''ok'') 5 (clock ?d2) (Some (s ''ok'')) ?d6 = (True, ?d6)"
    by (rule await_line_found)
  note both = update_display_resends_after_ok [OF r1 a1 r2 a2]
  let ?e = "example_display []"
  let ?e1 = "send_to_device (refresh_command example_protocol True) ?e"
  have s1: "read_from_device ?e1 = (None, ?e1)"
    by (rule read_silent) (simp_all add: example_display_fields)
  obtain ok1 e3 where b1: "await_line (s ''ok'') 5 (clock ?e) None ?e1 = (ok1, e3)"
    by (cases "await_line (s ''ok'') 5 (clock ?e) None ?e1")
  have "pending ?e1 = []" by (simp add: pending_def example_display_fields)
  then have "fst (await_line (s ''ok'') 5 (clock ?e) None ?e1) = False"
    by (intro await_line_absent) (simp_all add: complete_lines_def)
  with b1 have n: "\<not> ok1" by simp
  obtain line2 e6 where s2: "read_from_device (send_to_device (refresh_off_command example_protocol)
      (resend_image_data example_protocol e3)) = (line2, e6)"
    by (cases "read_from_device (send_to_device (refresh_off_command example_protocol)
      (resend_image_data example_protocol e3))")
  obtain ok2 e7 where b2: "await_line (s ''ok'') 5 (clock e3) line2 e6 = (ok2, e7)"
    by (cases "await_line (s ''ok'') 5 (clock e3) line2 e6")
  note none = update_display_resends_after_ok [OF s1 b1 s2 b2]
  from both none n show ?thesis
    by (simp add: example_display_fields example_refresh_commands example_region_output)
       (simp add: s_def)
qed

text \<open>
  C1, as stated, fails: with one region in the buffer and a device that answers the first
  \<open>ok\<close> and then nothing, \<open>update_display\<close> returns \<open>False\<close> and the buffer is empty.
\<close>

theorem buffer_empty_after_second_timeout:
  "image_buffer (example_display [ascii ''ok\<newline>'']) \<noteq> []
   \<and> fst (update_display example_protocol True 5 True (example_display [ascii ''ok\<newline>'']))
       = Returns False
   \<and> image_buffer (snd (update_display example_protocol True 5 True
                            (example_display [ascii ''ok\<newline>'']))) = []"
proof -
  let ?d = "example_display [ascii ''ok\<newline>'']"
  let ?d1 = "send_to_device (refresh_command example_protocol True) ?d"
  let ?d2 = "?d1\<lparr>rx := [], inbuffer := []\<rparr>"
  let ?d5 = "send_to_device (refresh_off_command example_protocol) (resend_image_data example_protocol ?d2)"
  have r1: "read_from_device ?d1 = (Some (s ''ok''), ?d2)"
    by (rule read_first[where bs = "ascii ''ok\<newline>''"])
       (simp_all add: example_display_fields ok_bytes, simp add: s_def)
  have a1: "await_line (s ''ok'') 5 (clock ?d) (Some (s ''ok'')) ?d2 = (True, ?d2)"
    by (rule await_line_found)
  have r2: "read_from_device ?d5 = (None, ?d5)"
    by (rule read_silent) simp_all
  obtain ok2 d7 where a2: "await_line (s ''ok'') 5 (clock ?d2) None ?d5 = (ok2, d7)"
    by (cases "await_line (s ''ok'') 5 (clock ?d2) None ?d5")
  have "pending ?d5 = []" by (simp add: pending_def)
  then have "fst (await_line (s ''ok'') 5 (clock ?d2) None ?d5) = False"
    by (intro await_line_absent) (simp_all add: complete_lines_def)
  with a2 have n: "\<not> ok2" by simp
  from update_display_unfold[OF r1 a1 r2 a2, of True] update_display_states(4)[OF r1 a1 r2 a2] n
  show ?thesis by (simp add: example_display_fields)
qed

text \<open>
  C10. \<open>update_display\<close> returns \<open>False\<close> exactly when the first wait gives up, or, with
  \<open>buffer_data\<close> set, the second one does; a wait gives up only after more than \<open>timeout\<close>
  seconds. In every other case it returns \<open>None\<close>, never \<open>True\<close>, so its result is never
  truthy.
\<close>

theorem update_display_never_true:
  assumes "read_from_device (send_to_device (refresh_command pc full) d) = (line, d2)"
      and "await_line (s ''ok'') timeout (clock d) line d2 = (ok1, d3)"
      and "read_from_device (send_to_device (refresh_off_command pc) (resend_image_data pc d3))
             = (line2, d6)"
      and "await_line (s ''ok'') timeout (clock d3) line2 d6 = (ok2, d7)"
  shows "fst (update_display pc full timeout buf d)
           = (if \<not> ok1 \<or> (buf \<and> \<not> ok2) then Returns False else ReturnsNone)
       \<and> fst (update_display pc full timeout buf d) \<noteq> Returns True
       \<and> \<not> truthy (fst (update_display pc full timeout buf d))
       \<and> (\<not> ok1 \<longrightarrow> timeout < clock d3 - clock d)
       \<and> (\<not> ok2 \<longrightarrow> timeout < clock d7 - clock d3)"
proof -
  have 1: "timeout < clock d3 - clock d" if "\<not> ok1"
    using await_line_times_out[of "s ''ok''" timeout "clock d" line d2 d3] assms(2) that by simp
  have 2: "timeout < clock d7 - clock d3" if "\<not> ok2"
    using await_line_times_out[of "s ''ok''" timeout "clock d3" line2 d6 d7] assms(4) that by simp
  from update_display_unfold[OF assms, of buf] 1 2 show ?thesis by auto
qed

theorem update_display_never_true_witness:
  "fst (update_display example_protocol True 5 False (example_display [ascii ''ok\<newline>'']))
     = ReturnsNone
   \<and> \<not> truthy (fst (update_display example_protocol True 5 False
                       (example_display [ascii ''ok\<newline>''])))
   \<and> fst (update_display example_protocol True 5 False (example_display [])) = Returns False"
proof -
  let ?ok = "ascii ''ok\<newline>''"
  let ?d = "example_display [?ok]"
  let ?d1 = "send_to_device (refresh_command example_protocol True) ?d"
  let ?d2 = "?d1\<lparr>rx := [], inbuffer := []\<rparr>"
  have r1: "read_from_device ?d1 = (Some (s ''ok''), ?d2)"
    by (rule read_first[where bs = ?ok])
       (simp_all add: example_display_fields ok_bytes, simp add: s_def)
  have a1: "await_line (s ''ok'') 5 (clock ?d) (Some (s ''ok'')) ?d2 = (True, ?d2)"
    by (rule await_line_found)
  obtain line2 d6 where r2: "read_from_device (send_to_device (refresh_off_command example_protocol)
      (resend_image_data example_protocol ?d2)) = (line2, d6)"
    by (cases "read_from_device (send_to_device (refresh_off_command example_protocol)
      (resend_image_data example_protocol ?d2))")
  obtain ok2 d7 where a2: "await_line (s ''ok'') 5 (clock ?d2) line2 d6 = (ok2, d7)"
    by (cases "await_line (s ''ok'') 5 (clock ?d2) line2 d6")
  note ok = update_display_never_true [OF r1 a1 r2 a2, of False]
  let ?e = "example_display []"
  let ?e1 = "send_to_device (refresh_command example_protocol True) ?e"
  have s1: "read_from_device ?e1 = (None, ?e1)"
    by (rule read_silent) (simp_all add: example_display_fields)
  obtain ok1 e3 where b1: "await_line (s ''ok'') 5 (clock ?e) None ?e1 = (ok1, e3)"
    by (cases "await_line (s ''ok'') 5 (clock ?e) None ?e1")
  have "pending ?e1 = []" by (simp add: pending_def example_display_fields)
  then have "fst (await_line (s ''ok'') 5 (clock ?e) None ?e1) = False"
    by (intro await_line_absent) (simp_all add: complete_lines_def)
  with b1 have n: "\<not> ok1" by simp
  obtain line3 e6 where s2: "read_from_device (send_to_device (refresh_off_command example_protocol)
      (resend_image_data example_protocol e3)) = (line3, e6)"
    by (cases "read_from_device (send_to_device (refresh_off_command example_protocol)
      (resend_image_data example_protocol e3))")
  obtain ok3 e7 where b2: "await_line (s ''ok'') 5 (clock e3) line3 e6 = (ok3, e7)"
    by (cases "await_line (s ''ok'') 5 (clock e3) line3 e6")
  note none = update_display_never_true [OF s1 b1 s2 b2, of False]
  from ok none n show ?thesis by simp
qed

section \<open>The handshake\<close>

text \<open>The text of a sequence of lines, each ended by a newline.\<close>

definition lines_text :: "pystr list \<Rightarrow> pystr" where
  "lines_text ls = concat (map (\<lambda>l. l @ [10]) ls)"

lemma lines_text_Cons [simp]: "lines_text (l # ls) = l @ 10 # lines_text ls"
  by (simp add: lines_text_def)

lemma lines_text_Nil [simp]: "lines_text [] = []"
  by (simp add: lines_text_def)








lemma pending_send_to_device [simp]: "pending (send_to_device c d) = pending d"
  by (simp add: pending_def send_to_device_def ser_write_def)










subsection \<open>A reply that arrives in pieces\<close>


text \<open>
  The text at hand within the next \<open>n\<close> reads: the line buffer, followed by what the next
  \<open>n\<close> calls of \<open>read_from_device\<close> find at the port.
\<close>

definition arriving :: "nat \<Rightarrow> 'h device \<Rightarrow> pystr" where
  "arriving n d = inbuffer d @ concat (map (\<lambda>c. remove_char 13 (decode c)) (take n (rx d)))"






lemma sleep_io [simp]: "rx (sleep t d) = rx d" "inbuffer (sleep t d) = inbuffer d"
  by (simp_all add: sleep_def split: list.splits)

lemma arriving_sleep [simp]: "arriving n (sleep t d) = arriving n d"
  by (simp add: arriving_def)

lemma arriving_send [simp]: "arriving n (send_to_device c d) = arriving n d"
  by (simp add: arriving_def send_to_device_def ser_write_def)









lemma arriving_0 [simp]: "arriving 0 d = inbuffer d"
  by (simp add: arriving_def)













subsection \<open>Failure\<close>






subsection \<open>Examples\<close>







subsection \<open>A terminator read after the budget\<close>






end
